theory Spec2Isabelle
  imports Main "HOL-Library.Word"
begin

section \<open>The benchmark program: data\<close>

text \<open>
  The program is one C++ file: a class \<open>Benchmark\<close> with four kinds of subclasses, a
  function that names a memory order, and \<open>main\<close>. The embedding keeps the names of the
  source. Counts of type \<open>size_t\<close> are natural numbers. The loop variable of \<open>Run\<close> is
  incremented modulo \<open>2 ^ 64\<close>, as \<open>++threads\<close> does; the other counts stop at a bound
  the code compares them with, below which no increment wraps. The 64-bit counters are
  \<open>64 word\<close>, so their increments wrap as the machine's do, and the difference of two
  clock readings is taken in 64 bits.
  Every function of the source is \<open>noexcept\<close> and handles no failure: a thread that
  cannot be created or memory that cannot be had ends the process, and is not modelled.
\<close>

definition Iterations :: nat where
  \<comment> \<open>\<open>constexpr const int Iterations = 500'000'000\<close>\<close>
  "Iterations = 500000000"

definition SIZE_MAX :: nat where
  \<comment> \<open>the largest value of \<open>size_t\<close>, 64 bits wide\<close>
  "SIZE_MAX = 2 ^ 64 - 1"

subsection \<open>Memory orders\<close>

text \<open>
  \<open>std::memory_order\<close> is an enumeration of the standard library, with the six
  enumerators numbered in the order of their declaration. A value of the type is an
  integer; the six named ones are \<open>0\<close> to \<open>5\<close>.
\<close>

type_synonym memory_order = int

definition memory_order_relaxed :: memory_order where "memory_order_relaxed = 0"
definition memory_order_consume :: memory_order where "memory_order_consume = 1"
definition memory_order_acquire :: memory_order where "memory_order_acquire = 2"
definition memory_order_release :: memory_order where "memory_order_release = 3"
definition memory_order_acq_rel :: memory_order where "memory_order_acq_rel = 4"
definition memory_order_seq_cst :: memory_order where "memory_order_seq_cst = 5"

definition GetMemoryOrderRepr :: "memory_order \<Rightarrow> string option" where
  \<comment> \<open>The \<open>switch\<close>; its \<open>default\<close> branch is \<open>__builtin_unreachable()\<close>, here \<open>None\<close>.\<close>
  "GetMemoryOrderRepr order =
     (if order = memory_order_relaxed then Some ''relaxed''
      else if order = memory_order_consume then Some ''consume''
      else if order = memory_order_acquire then Some ''acquire''
      else if order = memory_order_release then Some ''release''
      else if order = memory_order_acq_rel then Some ''acq_rel''
      else if order = memory_order_seq_cst then Some ''seq_cst''
      else None)"

subsection \<open>Benchmark objects\<close>

text \<open>
  An object of one of the four classes. The two \<open>Benchmark\<close> classes own the field
  \<open>_counter\<close>; the two \<open>Baseline\<close> classes have no field. The template argument
  \<open>Order\<close> of the atomic classes is part of the object's class.
\<close>

datatype Benchmark =
    NonAtomicBaseline
  | NonAtomicBenchmark "64 word"
  | AtomicBaseline memory_order
  | AtomicBenchmark memory_order "64 word"

fun counter_of :: "Benchmark \<Rightarrow> 64 word option" where
  \<comment> \<open>the field \<open>_counter\<close>, where the class has one\<close>
  "counter_of NonAtomicBaseline = None"
| "counter_of (NonAtomicBenchmark c) = Some c"
| "counter_of (AtomicBaseline Order) = None"
| "counter_of (AtomicBenchmark Order c) = Some c"

text \<open>The constructors: both initialise \<open>_counter(0)\<close>.\<close>

definition new_NonAtomicBaseline :: Benchmark where
  "new_NonAtomicBaseline = NonAtomicBaseline"

definition new_NonAtomicBenchmark :: Benchmark where
  "new_NonAtomicBenchmark = NonAtomicBenchmark 0"

definition new_AtomicBaseline :: "memory_order \<Rightarrow> Benchmark" where
  "new_AtomicBaseline Order = AtomicBaseline Order"

definition new_AtomicBenchmark :: "memory_order \<Rightarrow> Benchmark" where
  "new_AtomicBenchmark Order = AtomicBenchmark Order 0"

fun GetName :: "Benchmark \<Rightarrow> string option" where
  "GetName NonAtomicBaseline = Some ''Non-atomic Baseline''"
| "GetName (NonAtomicBenchmark c) = Some ''Non-atomic Benchmark''"
| "GetName (AtomicBaseline Order) =
     (case GetMemoryOrderRepr Order of
        None \<Rightarrow> None
      | Some r \<Rightarrow> Some ((''Atomic Baseline ('' @ r) @ '')''))"
| "GetName (AtomicBenchmark Order c) =
     (case GetMemoryOrderRepr Order of
        None \<Rightarrow> None
      | Some r \<Rightarrow> Some ((''Atomic Benchmark ('' @ r) @ '')''))"

subsection \<open>Worker threads\<close>

text \<open>
  The local variables of one call of \<open>RunThread\<close>: the loop index \<open>i\<close>, the local
  \<open>counter\<close> that the two baseline bodies declare (the other two bodies declare none and
  leave the field alone), and, for the unsynchronised \<open>++_counter\<close> of
  \<open>NonAtomicBenchmark\<close>, the value loaded from the field and not yet stored back.
  The index is an \<open>int\<close> in the source and never exceeds \<open>Iterations\<close>.
\<close>

record frame =
  frame_i :: nat
  frame_counter :: "64 word"
  frame_tmp :: "64 word option"

definition new_frame :: frame where
  "new_frame = \<lparr>frame_i = 0, frame_counter = 0, frame_tmp = None\<rparr>"

definition finished :: "frame \<Rightarrow> bool" where
  \<comment> \<open>the loop condition \<open>i < Iterations\<close> is false: \<open>RunThread\<close> returns\<close>
  "finished f = (\<not> frame_i f < Iterations)"

text \<open>
  One indivisible step of \<open>RunThread\<close> on the object \<open>this\<close>. A pass through the loop
  body is one step where the increment is atomic (\<open>fetch_add\<close>) or touches only the
  thread's own local. The \<open>++_counter\<close> of \<open>NonAtomicBenchmark\<close> on a plain volatile
  field is two steps, a load and a store, and other threads may run between them.
  The memory order given to \<open>fetch_add\<close> does not change the value it adds.
\<close>

fun RunThread_step :: "Benchmark \<Rightarrow> frame \<Rightarrow> Benchmark \<times> frame" where
  "RunThread_step NonAtomicBaseline f =
     (if frame_i f < Iterations
      then (NonAtomicBaseline,
            f\<lparr>frame_counter := frame_counter f + 1, frame_i := frame_i f + 1\<rparr>)
      else (NonAtomicBaseline, f))"
| "RunThread_step (NonAtomicBenchmark c) f =
     (if frame_i f < Iterations
      then (case frame_tmp f of
              None \<Rightarrow> (NonAtomicBenchmark c, f\<lparr>frame_tmp := Some c\<rparr>)
            | Some v \<Rightarrow> (NonAtomicBenchmark (v + 1),
                         f\<lparr>frame_tmp := None, frame_i := frame_i f + 1\<rparr>))
      else (NonAtomicBenchmark c, f))"
| "RunThread_step (AtomicBaseline Order) f =
     (if frame_i f < Iterations
      then (AtomicBaseline Order,
            f\<lparr>frame_counter := frame_counter f + 1, frame_i := frame_i f + 1\<rparr>)
      else (AtomicBaseline Order, f))"
| "RunThread_step (AtomicBenchmark Order c) f =
     (if frame_i f < Iterations
      then (AtomicBenchmark Order (c + 1), f\<lparr>frame_i := frame_i f + 1\<rparr>)
      else (AtomicBenchmark Order c, f))"

fun lost_store :: "Benchmark \<Rightarrow> frame \<Rightarrow> bool" where
  \<comment> \<open>the next step of the thread stores over a value it did not load\<close>
  "lost_store (NonAtomicBenchmark c) f =
     (frame_i f < Iterations \<and> (case frame_tmp f of None \<Rightarrow> False | Some v \<Rightarrow> v \<noteq> c))"
| "lost_store b f = False"

fun frame_work :: "Benchmark \<Rightarrow> frame \<Rightarrow> nat" where
  \<comment> \<open>the number of steps the thread still takes\<close>
  "frame_work (NonAtomicBenchmark c) f =
     2 * (Iterations - frame_i f) - (case frame_tmp f of None \<Rightarrow> 0 | Some v \<Rightarrow> 1)"
| "frame_work b f = Iterations - frame_i f"

subsection \<open>What the main thread does to the outside\<close>

datatype event =
    Write string       \<comment> \<open>\<open>std::cout << s\<close>\<close>
  | Flush              \<comment> \<open>\<open>std::cout.flush()\<close>, also the second half of \<open>std::endl\<close>\<close>
  | Now int            \<comment> \<open>\<open>high_resolution_clock::now()\<close> and the time point it returned\<close>
  | ThreadStart nat    \<comment> \<open>\<open>threads.emplace_back(...)\<close>: the thread at this index starts\<close>
  | ThreadJoin nat     \<comment> \<open>\<open>t.join()\<close> returned for the thread at this index\<close>

text \<open>
  The state outside the benchmark objects: the events of the main thread so far, how
  many clock readings and scheduling decisions have been consumed, and a flag that
  only observes: it is raised when some \<open>++_counter\<close> of a \<open>NonAtomicBenchmark\<close> stored
  over a value it had not loaded. No step reads the flag.
\<close>

record world =
  events :: "event list"
  clock_reads :: nat
  sched_steps :: nat
  lost_update :: bool

definition world0 :: world where
  "world0 = \<lparr>events = [], clock_reads = 0, sched_steps = 0, lost_update = False\<rparr>"

definition emit :: "event \<Rightarrow> world \<Rightarrow> world" where
  "emit e w = w\<lparr>events := events w @ [e]\<rparr>"

definition now :: "(nat \<Rightarrow> int) \<Rightarrow> world \<Rightarrow> int \<times> world" where
  \<comment> \<open>the clock is the environment's: the \<open>k\<close>-th reading returns \<open>clock k\<close>\<close>
  "now clock w =
     (clock (clock_reads w),
      emit (Now (clock (clock_reads w))) (w\<lparr>clock_reads := clock_reads w + 1\<rparr>))"

subsection \<open>Printing numbers\<close>

definition digit_char :: "nat \<Rightarrow> char" where
  \<comment> \<open>the character of a digit; only ever applied to \<open>d < 10\<close>\<close>
  "digit_char d = ''0123456789'' ! d"

function show_nat :: "nat \<Rightarrow> string" where
  \<comment> \<open>\<open>operator<<\<close> on an unsigned integer: decimal, no padding\<close>
  "show_nat n =
     (if n < 10 then [digit_char n] else show_nat (n div 10) @ [digit_char (n mod 10)])"
  by pat_completeness auto
termination
  by (relation "measure (\<lambda>n. n)") auto

declare show_nat.simps [simp del]

definition show_int :: "int \<Rightarrow> string" where
  \<comment> \<open>\<open>operator<<\<close> on a signed integer\<close>
  "show_int x = (if x < 0 then CHR ''-'' # show_nat (nat (- x)) else show_nat (nat x))"

definition duration_ms :: "int \<Rightarrow> int \<Rightarrow> int" where
  \<comment> \<open>\<open>(endTime - startTime) / std::chrono::milliseconds(1)\<close> on a clock that counts
      nanoseconds in an \<open>int64_t\<close>: the difference of the two counts as the machine
      computes it in 64 bits, then integer division, truncated towards zero\<close>
  "duration_ms startTime endTime =
     (let dur = sint (word_of_int endTime - word_of_int startTime :: 64 word)
      in if dur < 0 then - ((- dur) div 1000000) else dur div 1000000)"

section \<open>The benchmark program: operations\<close>

subsection \<open>The threads of one trial\<close>

text \<open>
  Between the first \<open>emplace_back\<close> and the last \<open>join\<close> of \<open>RunWithThreads\<close> the main
  thread and the workers it has started run side by side. A configuration holds the
  object \<open>this\<close>, the vector \<open>threads\<close> (one frame for each thread started so far), how
  many threads the \<open>join\<close> loop has joined, and the outside world.
\<close>

record config =
  bench :: Benchmark
  threads :: "frame list"
  joined :: nat
  outside :: world

datatype agent = Main | Worker nat

definition main_ready :: "nat \<Rightarrow> config \<Rightarrow> bool" where
  \<comment> \<open>the main thread can move: it still has a thread to start, or the thread it
      waits for in \<open>join\<close> has returned from \<open>RunThread\<close>\<close>
  "main_ready numThreads cfg =
     (length (threads cfg) < numThreads \<or>
      (joined cfg < length (threads cfg) \<and> finished (threads cfg ! joined cfg)))"

definition runnable :: "nat \<Rightarrow> config \<Rightarrow> agent list" where
  "runnable numThreads cfg =
     (if main_ready numThreads cfg then [Main] else []) @
     map Worker (filter (\<lambda>t. \<not> finished (threads cfg ! t)) [0..<length (threads cfg)])"

definition main_step :: "nat \<Rightarrow> config \<Rightarrow> config" where
  \<comment> \<open>one pass of the \<open>emplace_back\<close> loop, or, after it, one pass of the \<open>join\<close> loop\<close>
  "main_step numThreads cfg =
     (if length (threads cfg) < numThreads
      then cfg\<lparr>threads := threads cfg @ [new_frame],
               outside := emit (ThreadStart (length (threads cfg))) (outside cfg)\<rparr>
      else cfg\<lparr>joined := joined cfg + 1,
               outside := emit (ThreadJoin (joined cfg)) (outside cfg)\<rparr>)"

definition worker_step :: "nat \<Rightarrow> config \<Rightarrow> config" where
  "worker_step t cfg =
     (let f = threads cfg ! t;
          r = RunThread_step (bench cfg) f
      in cfg\<lparr>bench := fst r,
              threads := (threads cfg)[t := snd r],
              outside := (outside cfg)\<lparr>lost_update :=
                 lost_update (outside cfg) \<or> lost_store (bench cfg) f\<rparr>\<rparr>)"

text \<open>
  The scheduler is the environment's: its \<open>k\<close>-th decision is the number \<open>sched k\<close>, which
  picks one of the agents that can move. Every interleaving of the threads is the run
  under some \<open>sched\<close>.
\<close>

definition tick :: "config \<Rightarrow> config" where
  \<comment> \<open>one scheduling decision has been consumed\<close>
  "tick cfg = cfg\<lparr>outside := (outside cfg)\<lparr>sched_steps := sched_steps (outside cfg) + 1\<rparr>\<rparr>"

definition step :: "(nat \<Rightarrow> nat) \<Rightarrow> nat \<Rightarrow> config \<Rightarrow> config" where
  "step sched numThreads cfg =
     (let rs = runnable numThreads cfg
      in if rs = [] then cfg
         else (case rs ! (sched (sched_steps (outside cfg)) mod length rs) of
                 Main \<Rightarrow> main_step numThreads (tick cfg)
               | Worker t \<Rightarrow> worker_step t (tick cfg)))"

primrec exec :: "(nat \<Rightarrow> nat) \<Rightarrow> nat \<Rightarrow> nat \<Rightarrow> config \<Rightarrow> config" where
  "exec sched numThreads 0 cfg = cfg"
| "exec sched numThreads (Suc fuel) cfg = exec sched numThreads fuel (step sched numThreads cfg)"

definition work :: "nat \<Rightarrow> config \<Rightarrow> nat" where
  \<comment> \<open>the number of steps left until every thread is started, has finished and is joined\<close>
  "work numThreads cfg =
     (numThreads - length (threads cfg)) * (1 + frame_work (bench cfg) new_frame)
     + (numThreads - joined cfg)
     + sum_list (map (frame_work (bench cfg)) (threads cfg))"

text \<open>
  The two loops of \<open>RunWithThreads\<close> and the threads they start are run for as many steps
  as there is work. That this is the end of the trial (no agent can move, every thread
  is started, has finished and is joined) is proved below, not assumed.
\<close>

definition spawn_and_join :: "(nat \<Rightarrow> nat) \<Rightarrow> nat \<Rightarrow> Benchmark \<Rightarrow> world \<Rightarrow> config" where
  "spawn_and_join sched numThreads b w =
     (let cfg0 = \<lparr>bench = b, threads = [], joined = 0, outside = w\<rparr>
      in exec sched numThreads (work numThreads cfg0) cfg0)"

subsection \<open>\<open>RunWithThreads\<close>, \<open>Run\<close> and \<open>main\<close>\<close>

definition newline :: string where
  "newline = [CHR 0x0A]"

definition RunWithThreads ::
  "(nat \<Rightarrow> nat) \<Rightarrow> (nat \<Rightarrow> int) \<Rightarrow> nat \<Rightarrow> Benchmark \<Rightarrow> world \<Rightarrow> (Benchmark \<times> world) option" where
  "RunWithThreads sched clock numThreads b w =
     (case GetName b of
        None \<Rightarrow> None
      | Some name \<Rightarrow>
          (let w1 = emit (Write '' ... '') (emit (Write (show_nat numThreads))
                      (emit (Write '': numThreads = '') (emit (Write name) w)));
               w2 = emit Flush w1;
               start = now clock w2;
               cfg = spawn_and_join sched numThreads b (snd start);
               stop = now clock (outside cfg);
               dur = duration_ms (fst start) (fst stop);
               w3 = emit (Write newline) (emit (Write '' ms'')
                      (emit (Write (show_int dur)) (snd stop)))
           in Some (bench cfg, emit Flush w3)))"

text \<open>
  The loop of \<open>Run\<close>, from the current value \<open>n\<close> of its variable \<open>threads\<close>. The variable
  is a \<open>size_t\<close>: \<open>++threads\<close> wraps to 0 after \<open>SIZE_MAX\<close>, and then the condition
  \<open>threads <= maxNumThreads\<close> can stay true for ever. A result \<open>None\<close> says that the
  call does not return, or that its behaviour is undefined (\<open>GetName\<close>).
\<close>

partial_function (option) Run_loop ::
  "(nat \<Rightarrow> nat) \<Rightarrow> (nat \<Rightarrow> int) \<Rightarrow> nat \<Rightarrow> nat \<Rightarrow> Benchmark \<Rightarrow> world \<Rightarrow> (Benchmark \<times> world) option" where
  "Run_loop sched clock maxNumThreads n b w =
     (if n \<le> maxNumThreads
      then (case RunWithThreads sched clock n b w of
              None \<Rightarrow> None
            | Some (b', w') \<Rightarrow> Run_loop sched clock maxNumThreads ((n + 1) mod 2 ^ 64) b' w')
      else Some (b, w))"

definition Run ::
  "(nat \<Rightarrow> nat) \<Rightarrow> (nat \<Rightarrow> int) \<Rightarrow> nat \<Rightarrow> Benchmark \<Rightarrow> world \<Rightarrow> (Benchmark \<times> world) option" where
  "Run sched clock maxNumThreads b w = Run_loop sched clock maxNumThreads 1 b w"

text \<open>The macros of \<open>main\<close>: \<open>push_back\<close>, and one call of \<open>h\<close> for each memory order.\<close>

definition ADD_BENCHMARK :: "Benchmark \<Rightarrow> Benchmark list \<Rightarrow> Benchmark list" where
  "ADD_BENCHMARK t benchmarks = benchmarks @ [t]"

definition MEMORY_ORDER_LIST :: "(memory_order \<Rightarrow> 'a \<Rightarrow> 'a) \<Rightarrow> 'a \<Rightarrow> 'a" where
  "MEMORY_ORDER_LIST h s =
     h memory_order_seq_cst (h memory_order_acq_rel (h memory_order_release
       (h memory_order_acquire (h memory_order_consume (h memory_order_relaxed s)))))"

definition ADD_ATOMIC_BASELINE :: "memory_order \<Rightarrow> Benchmark list \<Rightarrow> Benchmark list" where
  "ADD_ATOMIC_BASELINE order = ADD_BENCHMARK (new_AtomicBaseline order)"

definition ADD_ATOMIC_BENCHMARK :: "memory_order \<Rightarrow> Benchmark list \<Rightarrow> Benchmark list" where
  "ADD_ATOMIC_BENCHMARK order = ADD_BENCHMARK (new_AtomicBenchmark order)"

definition benchmarks :: "Benchmark list" where
  \<comment> \<open>the vector \<open>benchmarks\<close> of \<open>main\<close> when the last macro has run\<close>
  "benchmarks =
     MEMORY_ORDER_LIST ADD_ATOMIC_BENCHMARK
       (MEMORY_ORDER_LIST ADD_ATOMIC_BASELINE
          (ADD_BENCHMARK new_NonAtomicBenchmark (ADD_BENCHMARK new_NonAtomicBaseline [])))"

fun run_all ::
  "(nat \<Rightarrow> nat) \<Rightarrow> (nat \<Rightarrow> int) \<Rightarrow> Benchmark list \<Rightarrow> world \<Rightarrow> (Benchmark list \<times> world) option" where
  \<comment> \<open>\<open>for (const auto& b : benchmarks) b->Run(10)\<close>; the objects are returned as the
      loop leaves them\<close>
  "run_all sched clock [] w = Some ([], w)"
| "run_all sched clock (b # bs) w =
     (case Run sched clock 10 b w of
        None \<Rightarrow> None
      | Some (b', w') \<Rightarrow>
          (case run_all sched clock bs w' of
             None \<Rightarrow> None
           | Some (bs', w'') \<Rightarrow> Some (b' # bs', w'')))"

definition main :: "(nat \<Rightarrow> nat) \<Rightarrow> (nat \<Rightarrow> int) \<Rightarrow> (int \<times> Benchmark list \<times> world) option" where
  \<comment> \<open>the exit code, the benchmark objects and the world when \<open>main\<close> returns\<close>
  "main sched clock =
     (case run_all sched clock benchmarks world0 of
        None \<Rightarrow> None
      | Some (bs, w) \<Rightarrow> Some (0, bs, w))"

section \<open>Notions used in the statements and in the proofs\<close>

fun order_of :: "Benchmark \<Rightarrow> memory_order option" where
  \<comment> \<open>the template argument \<open>Order\<close> of an object of an atomic class\<close>
  "order_of NonAtomicBaseline = None"
| "order_of (NonAtomicBenchmark c) = None"
| "order_of (AtomicBaseline Order) = Some Order"
| "order_of (AtomicBenchmark Order c) = Some Order"

definition memory_orders :: "memory_order list" where
  \<comment> \<open>the arguments with which \<open>MEMORY_ORDER_LIST\<close> calls its macro, in the order of the calls\<close>
  "memory_orders = MEMORY_ORDER_LIST (\<lambda>order os. os @ [order]) []"

definition shape :: "nat \<Rightarrow> world \<Rightarrow> config \<Rightarrow> bool" where
  \<comment> \<open>what holds of every configuration of a trial that started in the world \<open>w\<close>\<close>
  "shape n w cfg =
     (length (threads cfg) \<le> n \<and> joined cfg \<le> length (threads cfg) \<and>
      (joined cfg = 0 \<or> length (threads cfg) = n) \<and>
      events (outside cfg) =
        events w @ map ThreadStart [0..<length (threads cfg)] @ map ThreadJoin [0..<joined cfg] \<and>
      clock_reads (outside cfg) = clock_reads w)"

definition pending :: "nat \<Rightarrow> config \<Rightarrow> nat" where
  \<comment> \<open>the passes through the loop body that the threads of the trial have yet to make\<close>
  "pending n cfg =
     (n - length (threads cfg)) * Iterations
     + sum_list (map (\<lambda>f. Iterations - frame_i f) (threads cfg))"

definition trial_events :: "string \<Rightarrow> nat \<Rightarrow> int \<Rightarrow> int \<Rightarrow> event list" where
  \<comment> \<open>the events of one whole trial, given the name and the two clock readings\<close>
  "trial_events name numThreads startTime endTime =
     [Write name, Write '': numThreads = '', Write (show_nat numThreads), Write '' ... '',
      Flush, Now startTime]
     @ map ThreadStart [0..<numThreads] @ map ThreadJoin [0..<numThreads]
     @ [Now endTime, Write (show_int (duration_ms startTime endTime)), Write '' ms'',
        Write newline, Flush]"

definition world_at_start :: "(nat \<Rightarrow> int) \<Rightarrow> string \<Rightarrow> nat \<Rightarrow> world \<Rightarrow> world" where
  \<comment> \<open>the world in which the threads of a trial start: the prefix is written and
      flushed and \<open>startTime\<close> is read\<close>
  "world_at_start clock name numThreads w =
     snd (now clock (emit Flush (emit (Write '' ... '') (emit (Write (show_nat numThreads))
       (emit (Write '': numThreads = '') (emit (Write name) w))))))"

definition sweep_events :: "(nat \<Rightarrow> int) \<Rightarrow> string \<Rightarrow> nat \<Rightarrow> nat \<Rightarrow> event list" where
  \<comment> \<open>the events of the trials with 1 to \<open>maxNumThreads\<close> threads, one after the other,
      when \<open>r\<close> clock readings were made before the sweep\<close>
  "sweep_events clock name r maxNumThreads =
     concat (map (\<lambda>k. trial_events name k (clock (r + 2 * (k - 1))) (clock (r + 2 * (k - 1) + 1)))
               [1..<Suc maxNumThreads])"

definition counter_value :: "Benchmark \<Rightarrow> int option" where
  \<comment> \<open>the field \<open>_counter\<close> read as the \<open>int64_t\<close> it is\<close>
  "counter_value b = map_option sint (counter_of b)"

definition private_ok :: "Benchmark \<Rightarrow> config \<Rightarrow> bool" where
  \<comment> \<open>every thread's local counter is the number of its passes so far\<close>
  "private_ok b cfg =
     (bench cfg = b \<and>
      (\<forall>f \<in> set (threads cfg). frame_counter f = of_nat (frame_i f) \<and> frame_i f \<le> Iterations))"


definition started :: "event list \<Rightarrow> nat list" where
  \<comment> \<open>the indices of the threads started, in the order of their starts\<close>
  "started evs = concat (map (\<lambda>e. case e of ThreadStart t \<Rightarrow> [t] | _ \<Rightarrow> []) evs)"

definition joins :: "event list \<Rightarrow> nat list" where
  \<comment> \<open>the indices of the threads joined, in the order of the joins\<close>
  "joins evs = concat (map (\<lambda>e. case e of ThreadJoin t \<Rightarrow> [t] | _ \<Rightarrow> []) evs)"

definition name_of :: "Benchmark \<Rightarrow> string" where
  \<comment> \<open>the name of an object that has one\<close>
  "name_of b = (case GetName b of None \<Rightarrow> [] | Some s \<Rightarrow> s)"

definition stdout_of :: "event list \<Rightarrow> string" where
  \<comment> \<open>the text written to \<open>std::cout\<close>\<close>
  "stdout_of evs = concat (map (\<lambda>e. case e of Write s \<Rightarrow> s | _ \<Rightarrow> []) evs)"

definition digit_of :: "char \<Rightarrow> nat" where
  \<comment> \<open>the value of a decimal digit\<close>
  "digit_of ch = of_char ch - 48"

definition read_nat :: "string \<Rightarrow> nat" where
  \<comment> \<open>the number that a string of decimal digits denotes\<close>
  "read_nat s = foldl (\<lambda>a ch. 10 * a + digit_of ch) 0 s"

definition read_int :: "string \<Rightarrow> int" where
  \<comment> \<open>the same with an optional minus sign in front\<close>
  "read_int s =
     (case s of
        [] \<Rightarrow> 0
      | ch # r \<Rightarrow> if ch = CHR ''-'' then - int (read_nat r) else int (read_nat s))"

definition report_line :: "string \<Rightarrow> nat \<Rightarrow> int \<Rightarrow> string" where
  \<comment> \<open>the line of one trial\<close>
  "report_line name numThreads ms =
     name @ '': numThreads = '' @ show_nat numThreads @ '' ... '' @ show_int ms @ '' ms'' @ newline"

definition program_events :: "(nat \<Rightarrow> int) \<Rightarrow> event list" where
  \<comment> \<open>the sweeps of the objects of \<open>main\<close>, ten trials each, in the order of the vector\<close>
  "program_events clock =
     concat (map (\<lambda>i. sweep_events clock (name_of (benchmarks ! i)) (20 * i) 10)
               [0..<length benchmarks])"




definition racy_sched :: "nat \<Rightarrow> nat" where
  \<comment> \<open>a schedule for two threads: start both, let both load, then let both store\<close>
  "racy_sched k = (if k = 3 \<or> k = 5 then 1 else 0)"

section \<open>Facts about the steps of a trial\<close>

lemma pick_in_set: "rs \<noteq> [] \<Longrightarrow> rs ! (k mod length rs) \<in> set rs"
  by simp

lemma runnable_cases:
  assumes "a \<in> set (runnable n cfg)"
  shows "(a = Main \<and> main_ready n cfg) \<or>
         (\<exists>t. a = Worker t \<and> t < length (threads cfg) \<and> \<not> finished (threads cfg ! t))"
  using assms by (auto simp: runnable_def split: if_splits)

lemma step_cases:
  assumes idle: "runnable n cfg = [] \<Longrightarrow> Q cfg"
    and main: "main_ready n cfg \<Longrightarrow> Q (main_step n (tick cfg))"
    and worker: "\<And>t. t < length (threads cfg) \<Longrightarrow> \<not> finished (threads cfg ! t) \<Longrightarrow> Q (worker_step t (tick cfg))"
  shows "Q (step sched n cfg)"
proof (cases "runnable n cfg = []")
  case True
  then show ?thesis using idle by (simp add: step_def)
next
  case False
  let ?a = "runnable n cfg ! (sched (sched_steps (outside cfg)) mod length (runnable n cfg))"
  have "?a \<in> set (runnable n cfg)" using False by (rule pick_in_set)
  from runnable_cases[OF this] show ?thesis
    using False main worker by (auto simp: step_def Let_def)
qed

subsection \<open>The fields of a configuration after a step\<close>

lemma tick_simps:
  "bench (tick cfg) = bench cfg" "threads (tick cfg) = threads cfg" "joined (tick cfg) = joined cfg"
  "events (outside (tick cfg)) = events (outside cfg)"
  "clock_reads (outside (tick cfg)) = clock_reads (outside cfg)"
  "lost_update (outside (tick cfg)) = lost_update (outside cfg)"
  "sched_steps (outside (tick cfg)) = Suc (sched_steps (outside cfg))"
  by (simp_all add: tick_def)

lemma emit_simps:
  "events (emit e w) = events w @ [e]" "clock_reads (emit e w) = clock_reads w"
  "sched_steps (emit e w) = sched_steps w" "lost_update (emit e w) = lost_update w"
  by (simp_all add: emit_def)

lemma worker_step_simps:
  "bench (worker_step t cfg) = fst (RunThread_step (bench cfg) (threads cfg ! t))"
  "threads (worker_step t cfg) = (threads cfg)[t := snd (RunThread_step (bench cfg) (threads cfg ! t))]"
  "joined (worker_step t cfg) = joined cfg"
  "events (outside (worker_step t cfg)) = events (outside cfg)"
  "clock_reads (outside (worker_step t cfg)) = clock_reads (outside cfg)"
  "sched_steps (outside (worker_step t cfg)) = sched_steps (outside cfg)"
  "lost_update (outside (worker_step t cfg)) =
     (lost_update (outside cfg) \<or> lost_store (bench cfg) (threads cfg ! t))"
  by (simp_all add: worker_step_def Let_def)

lemma main_step_spawn:
  assumes "length (threads cfg) < n"
  shows "bench (main_step n cfg) = bench cfg"
    "threads (main_step n cfg) = threads cfg @ [new_frame]"
    "joined (main_step n cfg) = joined cfg"
    "outside (main_step n cfg) = emit (ThreadStart (length (threads cfg))) (outside cfg)"
  using assms by (simp_all add: main_step_def)

lemma main_step_join:
  assumes "\<not> length (threads cfg) < n"
  shows "bench (main_step n cfg) = bench cfg"
    "threads (main_step n cfg) = threads cfg"
    "joined (main_step n cfg) = Suc (joined cfg)"
    "outside (main_step n cfg) = emit (ThreadJoin (joined cfg)) (outside cfg)"
  using assms by (simp_all add: main_step_def)

subsection \<open>The work that is left\<close>

lemma frame_work_class: "frame_work (fst (RunThread_step b f)) g = frame_work b g"
  by (cases b) (auto split: option.splits)

lemma frame_work_step:
  "\<not> finished f \<Longrightarrow> frame_work b (snd (RunThread_step b f)) = frame_work b f - 1"
  by (cases b) (auto simp: finished_def split: option.splits)

lemma frame_work_pos: "\<not> finished f \<Longrightarrow> 0 < frame_work b f"
  by (cases b) (auto simp: finished_def split: option.splits)

lemma frame_work_finished: "finished f \<Longrightarrow> frame_work b f = 0"
  by (cases b) (auto simp: finished_def split: option.splits)


lemma sum_list_map_update:
  fixes g :: "'a \<Rightarrow> nat"
  assumes "t < length xs"
  shows "sum_list (map g (xs[t := y])) + g (xs ! t) = sum_list (map g xs) + g y"
  using assms
proof (induction xs arbitrary: t)
  case Nil
  then show ?case by simp
next
  case (Cons x xs)
  then show ?case by (cases t) auto
qed

lemma work_tick: "work n (tick cfg) = work n cfg"
  by (simp add: work_def tick_simps)

lemma frame_work_class': "frame_work (fst (RunThread_step b f)) = frame_work b"
  by (rule ext) (rule frame_work_class)

lemma work_worker_step:
  assumes "t < length (threads cfg)" and "\<not> finished (threads cfg ! t)"
  shows "work n (worker_step t cfg) = work n cfg - 1"
proof -
  let ?b = "bench cfg" and ?f = "threads cfg ! t"
  let ?f' = "snd (RunThread_step ?b ?f)"
  let ?S = "sum_list (map (frame_work ?b) (threads cfg))"
  let ?S' = "sum_list (map (frame_work ?b) ((threads cfg)[t := ?f']))"
  have "?S' + frame_work ?b ?f = ?S + frame_work ?b ?f'"
    using assms(1) by (rule sum_list_map_update)
  moreover have "frame_work ?b ?f' = frame_work ?b ?f - 1"
    using assms(2) by (rule frame_work_step)
  moreover have "0 < frame_work ?b ?f"
    using assms(2) by (rule frame_work_pos)
  ultimately have "?S' + 1 = ?S" by arith
  moreover have "work n (worker_step t cfg) =
      (n - length (threads cfg)) * (1 + frame_work ?b new_frame) + (n - joined cfg) + ?S'"
    by (simp add: work_def worker_step_simps frame_work_class')
  ultimately show ?thesis
    unfolding work_def by arith
qed

lemma work_main_step:
  assumes "main_ready n cfg" and "length (threads cfg) \<le> n"
  shows "work n (main_step n cfg) = work n cfg - 1"
proof (cases "length (threads cfg) < n")
  case True
  have "frame_work (bench cfg) new_frame = frame_work (bench cfg) new_frame" ..
  from True obtain d where d: "n - length (threads cfg) = Suc d" "n - Suc (length (threads cfg)) = d"
    by (metis Suc_diff_Suc)
  show ?thesis using True d
    by (simp add: work_def main_step_spawn)
next
  case False
  with assms have "joined cfg < n" by (simp add: main_ready_def)
  then obtain d where d: "n - joined cfg = Suc d" "n - Suc (joined cfg) = d"
    by (metis Suc_diff_Suc)
  show ?thesis using False d
    by (simp add: work_def main_step_join)
qed

lemma work_pos_runnable:
  assumes "0 < work n cfg"
  shows "runnable n cfg \<noteq> []"
proof (cases "\<exists>t < length (threads cfg). \<not> finished (threads cfg ! t)")
  case True
  then show ?thesis by (auto simp: runnable_def filter_empty_conv)
next
  case False
  then have "\<forall>f \<in> set (threads cfg). frame_work (bench cfg) f = 0"
    by (auto simp: in_set_conv_nth frame_work_finished)
  then have "sum_list (map (frame_work (bench cfg)) (threads cfg)) = 0"
    by simp
  with assms have "length (threads cfg) < n \<or> joined cfg < n"
    by (auto simp: work_def)
  then have "main_ready n cfg"
    using False by (auto simp: main_ready_def)
  then show ?thesis by (simp add: runnable_def)
qed

lemma work_step:
  assumes "length (threads cfg) \<le> n"
  shows "work n (step sched n cfg) = work n cfg - 1"
proof (rule step_cases)
  assume "runnable n cfg = []"
  then have "work n cfg = 0" using work_pos_runnable by blast
  then show "work n cfg = work n cfg - 1" by simp
next
  assume "main_ready n cfg"
  then have "main_ready n (tick cfg)" by (simp add: main_ready_def tick_simps)
  then show "work n (main_step n (tick cfg)) = work n cfg - 1"
    using assms work_main_step[of n "tick cfg"] by (simp add: tick_simps work_tick)
next
  fix t assume "t < length (threads cfg)" "\<not> finished (threads cfg ! t)"
  then show "work n (worker_step t (tick cfg)) = work n cfg - 1"
    using work_worker_step[of t "tick cfg" n] by (simp add: tick_simps work_tick)
qed

lemma length_threads_step:
  assumes "length (threads cfg) \<le> n"
  shows "length (threads (step sched n cfg)) \<le> n"
proof (rule step_cases)
  show "length (threads cfg) \<le> n" by fact
next
  show "length (threads (main_step n (tick cfg))) \<le> n"
    using assms by (cases "length (threads cfg) < n") (simp_all add: main_step_def tick_simps)
next
  fix t show "length (threads (worker_step t (tick cfg))) \<le> n"
    using assms by (simp add: worker_step_simps tick_simps)
qed

lemma exec_work:
  "length (threads cfg) \<le> n \<Longrightarrow> work n (exec sched n fuel cfg) = work n cfg - fuel"
proof (induction fuel arbitrary: cfg)
  case 0
  then show ?case by simp
next
  case (Suc fuel)
  then show ?case by (simp add: work_step length_threads_step)
qed


lemma exec_invariant:
  assumes "P cfg" and "\<And>cfg. P cfg \<Longrightarrow> P (step sched n cfg)"
  shows "P (exec sched n fuel cfg)"
  using assms(1)
proof (induction fuel arbitrary: cfg)
  case 0
  then show ?case by simp
next
  case (Suc fuel)
  then show ?case by (simp add: assms(2))
qed

lemma shape_step:
  assumes "shape n w cfg"
  shows "shape n w (step sched n cfg)"
proof (rule step_cases)
  show "shape n w cfg" by fact
next
  assume ready: "main_ready n cfg"
  show "shape n w (main_step n (tick cfg))"
  proof (cases "length (threads cfg) < n")
    case True
    with assms have "joined cfg = 0" by (auto simp: shape_def)
    with True assms show ?thesis
      by (simp add: shape_def main_step_spawn tick_simps emit_simps)
  next
    case False
    with ready have "joined cfg < length (threads cfg)" by (simp add: main_ready_def)
    with False assms show ?thesis
      by (simp add: shape_def main_step_join tick_simps emit_simps)
  qed
next
  fix t
  show "shape n w (worker_step t (tick cfg))"
    using assms by (simp add: shape_def worker_step_simps tick_simps)
qed

lemma shape_exec: "shape n w cfg \<Longrightarrow> shape n w (exec sched n fuel cfg)"
  by (rule exec_invariant) (auto intro: shape_step)

lemma shape_init: "shape n w \<lparr>bench = b, threads = [], joined = 0, outside = w\<rparr>"
  by (simp add: shape_def)

lemma trial_final:
  assumes "shape n w cfg" and "work n cfg = 0"
  shows "length (threads cfg) = n" and "joined cfg = n"
    and "\<forall>f \<in> set (threads cfg). finished f"
proof -
  from assms(2) have s: "sum_list (map (frame_work (bench cfg)) (threads cfg)) = 0"
    and l: "n \<le> length (threads cfg)" and j: "n \<le> joined cfg"
    by (simp_all add: work_def)
  from l assms(1) show "length (threads cfg) = n" by (simp add: shape_def)
  with j assms(1) show "joined cfg = n" by (simp add: shape_def)
  show "\<forall>f \<in> set (threads cfg). finished f"
  proof
    fix f assume "f \<in> set (threads cfg)"
    with s have "frame_work (bench cfg) f = 0" by simp
    then show "finished f" using frame_work_pos[of f "bench cfg"] by auto
  qed
qed

lemma spawn_and_join_shape: "shape n w (spawn_and_join sched n b w)"
  by (simp add: spawn_and_join_def Let_def shape_exec shape_init)

lemma spawn_and_join_work: "work n (spawn_and_join sched n b w) = 0"
  by (simp add: spawn_and_join_def Let_def exec_work)

lemmas spawn_and_join_final =
  trial_final[OF spawn_and_join_shape spawn_and_join_work]

lemma spawn_and_join_done: "runnable n (spawn_and_join sched n b w) = []"
proof -
  let ?cfg = "spawn_and_join sched n b w"
  have "length (threads ?cfg) = n" "joined ?cfg = n" "\<forall>f \<in> set (threads ?cfg). finished f"
    by (rule spawn_and_join_final)+
  then show ?thesis by (simp add: runnable_def main_ready_def filter_empty_conv)
qed

lemma spawn_and_join_events:
  "events (outside (spawn_and_join sched n b w)) =
     events w @ map ThreadStart [0..<n] @ map ThreadJoin [0..<n]"
  using spawn_and_join_shape[of n w sched b] spawn_and_join_final(1,2)
  by (simp add: shape_def)

lemma spawn_and_join_clock:
  "clock_reads (outside (spawn_and_join sched n b w)) = clock_reads w"
  using spawn_and_join_shape[of n w sched b] by (simp add: shape_def)

subsection \<open>The loop index stays in range\<close>

lemma RunThread_step_i:
  "frame_i f \<le> Iterations \<Longrightarrow> frame_i (snd (RunThread_step b f)) \<le> Iterations"
  by (cases b) (auto split: option.splits)

lemma in_set_updateD: "x \<in> set (xs[t := y]) \<Longrightarrow> x = y \<or> x \<in> set xs"
  using set_update_subset_insert[of xs t y] by auto

lemma bounded_step:
  assumes "\<forall>f \<in> set (threads cfg). frame_i f \<le> Iterations"
  shows "\<forall>f \<in> set (threads (step sched n cfg)). frame_i f \<le> Iterations"
proof (rule step_cases)
  show "\<forall>f \<in> set (threads cfg). frame_i f \<le> Iterations" by fact
next
  show "\<forall>f \<in> set (threads (main_step n (tick cfg))). frame_i f \<le> Iterations"
    using assms by (auto simp: main_step_def tick_simps new_frame_def)
next
  fix t assume "t < length (threads cfg)"
  then have "frame_i (threads cfg ! t) \<le> Iterations" using assms by simp
  then show "\<forall>f \<in> set (threads (worker_step t (tick cfg))). frame_i f \<le> Iterations"
    using assms by (auto simp: worker_step_simps tick_simps dest!: in_set_updateD intro: RunThread_step_i)
qed

lemma spawn_and_join_i:
  assumes "f \<in> set (threads (spawn_and_join sched n b w))"
  shows "frame_i f = Iterations"
proof -
  have "\<forall>f \<in> set (threads (spawn_and_join sched n b w)). frame_i f \<le> Iterations"
    unfolding spawn_and_join_def Let_def
    by (rule exec_invariant) (simp, rule bounded_step)
  moreover have "finished f" using spawn_and_join_final(3) assms by blast
  ultimately show ?thesis using assms by (auto simp: finished_def)
qed


subsection \<open>Passes that are still to come\<close>

lemma pending_tick: "pending n (tick cfg) = pending n cfg"
  by (simp add: pending_def tick_simps)

lemma pending_main_step:
  assumes "main_ready n cfg"
  shows "pending n (main_step n cfg) = pending n cfg"
proof (cases "length (threads cfg) < n")
  case True
  then obtain d where d: "n - length (threads cfg) = Suc d" "n - Suc (length (threads cfg)) = d"
    by (metis Suc_diff_Suc)
  show ?thesis using True d by (simp add: pending_def main_step_spawn new_frame_def)
next
  case False
  then show ?thesis by (simp add: pending_def main_step_join)
qed


lemma pending_update_Suc:
  assumes "t < length xs" and "frame_i y = Suc (frame_i (xs ! t))" and "frame_i (xs ! t) < Iterations"
  shows "Suc (sum_list (map (\<lambda>f. Iterations - frame_i f) (xs[t := y])))
         = sum_list (map (\<lambda>f. Iterations - frame_i f) xs)"
  using sum_list_map_update[OF assms(1), of "\<lambda>f. Iterations - frame_i f" y] assms(2,3)
  by simp

lemma pending_final:
  assumes "length (threads cfg) = n" and "\<forall>f \<in> set (threads cfg). finished f"
  shows "pending n cfg = 0"
  using assms by (auto simp: pending_def finished_def)

lemma pending_init: "pending n \<lparr>bench = b, threads = [], joined = 0, outside = w\<rparr> = n * Iterations"
  by (simp add: pending_def)

subsection \<open>The atomic shared counter in a trial\<close>

lemma atomic_step:
  assumes "bench cfg = AtomicBenchmark Order c" and "c + of_nat (pending n cfg) = tot"
  shows "\<exists>c'. bench (step sched n cfg) = AtomicBenchmark Order c' \<and>
              c' + of_nat (pending n (step sched n cfg)) = tot"
proof (rule step_cases)
  show "\<exists>c'. bench cfg = AtomicBenchmark Order c' \<and> c' + of_nat (pending n cfg) = tot"
    using assms by simp
next
  assume "main_ready n cfg"
  then have "main_ready n (tick cfg)" by (simp add: main_ready_def tick_simps)
  then have "pending n (main_step n (tick cfg)) = pending n cfg"
    by (simp add: pending_main_step pending_tick)
  moreover have "bench (main_step n (tick cfg)) = bench cfg"
    by (simp add: main_step_def tick_simps)
  ultimately show "\<exists>c'. bench (main_step n (tick cfg)) = AtomicBenchmark Order c' \<and>
      c' + of_nat (pending n (main_step n (tick cfg))) = tot"
    using assms by simp
next
  fix t assume t: "t < length (threads cfg)" and nf: "\<not> finished (threads cfg ! t)"
  let ?f = "threads cfg ! t"
  from nf have lt: "frame_i ?f < Iterations" by (simp add: finished_def)
  let ?y = "?f\<lparr>frame_i := frame_i ?f + 1\<rparr>"
  have b: "bench (worker_step t (tick cfg)) = AtomicBenchmark Order (c + 1)"
    and th: "threads (worker_step t (tick cfg)) = (threads cfg)[t := ?y]"
    using assms(1) lt by (simp_all add: worker_step_simps tick_simps)
  have "Suc (sum_list (map (\<lambda>f. Iterations - frame_i f) ((threads cfg)[t := ?y])))
         = sum_list (map (\<lambda>f. Iterations - frame_i f) (threads cfg))"
    using t _ lt by (rule pending_update_Suc) simp
  then have "Suc (pending n (worker_step t (tick cfg))) = pending n cfg"
    by (simp add: pending_def th)
  then have "of_nat (pending n cfg) = (1 :: 64 word) + of_nat (pending n (worker_step t (tick cfg)))"
    by (metis of_nat_Suc)
  with assms(2) have "(c + 1) + of_nat (pending n (worker_step t (tick cfg))) = tot"
    by (simp add: add.assoc)
  with b show "\<exists>c'. bench (worker_step t (tick cfg)) = AtomicBenchmark Order c' \<and>
      c' + of_nat (pending n (worker_step t (tick cfg))) = tot"
    by blast
qed

lemma spawn_and_join_pending: "pending n (spawn_and_join sched n b w) = 0"
  using spawn_and_join_final(1,3) by (rule pending_final)

lemma spawn_and_join_atomic:
  "bench (spawn_and_join sched n (AtomicBenchmark Order c) w)
     = AtomicBenchmark Order (c + of_nat (n * Iterations))"
proof -
  let ?cfg0 = "\<lparr>bench = AtomicBenchmark Order c, threads = [], joined = 0, outside = w\<rparr>"
  let ?P = "\<lambda>cfg. \<exists>c'. bench cfg = AtomicBenchmark Order c' \<and>
              c' + of_nat (pending n cfg) = c + of_nat (n * Iterations)"
  have "?P (exec sched n (work n ?cfg0) ?cfg0)"
  proof (rule exec_invariant)
    show "?P ?cfg0" by (simp add: pending_init)
  next
    fix cfg assume "?P cfg"
    then show "?P (step sched n cfg)" by (auto intro: atomic_step)
  qed
  then have "?P (spawn_and_join sched n (AtomicBenchmark Order c) w)"
    by (simp add: spawn_and_join_def Let_def)
  then show ?thesis by (simp add: spawn_and_join_pending)
qed

section \<open>Facts about trials, sweeps and \<open>main\<close>\<close>

lemmas memory_order_defs =
  memory_order_relaxed_def memory_order_consume_def memory_order_acquire_def
  memory_order_release_def memory_order_acq_rel_def memory_order_seq_cst_def

lemma memory_orders_eq:
  "memory_orders = [memory_order_relaxed, memory_order_consume, memory_order_acquire,
     memory_order_release, memory_order_acq_rel, memory_order_seq_cst]"
  by (simp add: memory_orders_def MEMORY_ORDER_LIST_def)

lemma benchmarks_eq:
  "benchmarks =
    [NonAtomicBaseline, NonAtomicBenchmark 0,
     AtomicBaseline memory_order_relaxed, AtomicBaseline memory_order_consume,
     AtomicBaseline memory_order_acquire, AtomicBaseline memory_order_release,
     AtomicBaseline memory_order_acq_rel, AtomicBaseline memory_order_seq_cst,
     AtomicBenchmark memory_order_relaxed 0, AtomicBenchmark memory_order_consume 0,
     AtomicBenchmark memory_order_acquire 0, AtomicBenchmark memory_order_release 0,
     AtomicBenchmark memory_order_acq_rel 0, AtomicBenchmark memory_order_seq_cst 0]"
  by (simp add: benchmarks_def MEMORY_ORDER_LIST_def ADD_ATOMIC_BASELINE_def
      ADD_ATOMIC_BENCHMARK_def ADD_BENCHMARK_def new_NonAtomicBaseline_def
      new_NonAtomicBenchmark_def new_AtomicBaseline_def new_AtomicBenchmark_def)

lemma GetMemoryOrderRepr_simps:
  "GetMemoryOrderRepr memory_order_relaxed = Some ''relaxed''"
  "GetMemoryOrderRepr memory_order_consume = Some ''consume''"
  "GetMemoryOrderRepr memory_order_acquire = Some ''acquire''"
  "GetMemoryOrderRepr memory_order_release = Some ''release''"
  "GetMemoryOrderRepr memory_order_acq_rel = Some ''acq_rel''"
  "GetMemoryOrderRepr memory_order_seq_cst = Some ''seq_cst''"
  by (simp_all add: GetMemoryOrderRepr_def memory_order_defs)

lemma GetMemoryOrderRepr_None: "GetMemoryOrderRepr order = None \<longleftrightarrow> order \<notin> set memory_orders"
  by (simp add: GetMemoryOrderRepr_def memory_orders_eq)


lemma now_simps:
  "fst (now clock w) = clock (clock_reads w)"
  "events (snd (now clock w)) = events w @ [Now (clock (clock_reads w))]"
  "clock_reads (snd (now clock w)) = Suc (clock_reads w)"
  "sched_steps (snd (now clock w)) = sched_steps w"
  "lost_update (snd (now clock w)) = lost_update w"
  by (simp_all add: now_def emit_simps)

lemma world_at_start_simps:
  "events (world_at_start clock nm n w) =
     events w @ [Write nm, Write '': numThreads = '', Write (show_nat n), Write '' ... '',
                 Flush, Now (clock (clock_reads w))]"
  "clock_reads (world_at_start clock nm n w) = Suc (clock_reads w)"
  "sched_steps (world_at_start clock nm n w) = sched_steps w"
  "lost_update (world_at_start clock nm n w) = lost_update w"
  by (simp_all add: world_at_start_def now_simps emit_simps)

lemma RunWithThreads_result:
  assumes "GetName b = Some nm"
  shows "\<exists>w'. RunWithThreads sched clock n b w =
            Some (bench (spawn_and_join sched n b (world_at_start clock nm n w)), w') \<and>
          events w' = events w @
            trial_events nm n (clock (clock_reads w)) (clock (Suc (clock_reads w))) \<and>
          clock_reads w' = clock_reads w + 2 \<and>
          lost_update w' =
            lost_update (outside (spawn_and_join sched n b (world_at_start clock nm n w)))"
proof -
  let ?w2 = "world_at_start clock nm n w"
  let ?cfg = "spawn_and_join sched n b ?w2"
  let ?t0 = "clock (clock_reads w)" and ?t1 = "clock (Suc (clock_reads w))"
  let ?w' = "emit Flush (emit (Write newline) (emit (Write '' ms'')
               (emit (Write (show_int (duration_ms ?t0 ?t1))) (snd (now clock (outside ?cfg))))))"
  have t0: "fst (now clock (emit Flush (emit (Write '' ... '') (emit (Write (show_nat n))
       (emit (Write '': numThreads = '') (emit (Write nm) w)))))) = ?t0"
    by (simp add: now_simps emit_simps)
  have t1: "fst (now clock (outside ?cfg)) = ?t1"
    by (simp add: now_simps spawn_and_join_clock world_at_start_simps)
  have r1: "RunWithThreads sched clock n b w = Some (bench ?cfg, ?w')"
    unfolding RunWithThreads_def Let_def using assms t0 t1
    by (simp add: world_at_start_def)
  have r2: "events ?w' = events w @ trial_events nm n ?t0 ?t1"
    by (simp add: emit_simps now_simps spawn_and_join_events spawn_and_join_clock
        world_at_start_simps trial_events_def)
  have r3: "clock_reads ?w' = clock_reads w + 2"
    by (simp add: emit_simps now_simps spawn_and_join_clock world_at_start_simps)
  have r4: "lost_update ?w' = lost_update (outside ?cfg)"
    by (simp add: emit_simps now_simps)
  show ?thesis
  proof (intro exI conjI)
    show "RunWithThreads sched clock n b w = Some (bench ?cfg, ?w')" by (rule r1)
    show "events ?w' = events w @ trial_events nm n ?t0 ?t1" by (rule r2)
    show "clock_reads ?w' = clock_reads w + 2" by (rule r3)
    show "lost_update ?w' = lost_update (outside ?cfg)" by (rule r4)
  qed
qed

subsection \<open>The class of an object does not change\<close>

lemma GetName_RunThread_step: "GetName (fst (RunThread_step b f)) = GetName b"
  by (cases b) (auto split: option.splits)

lemma order_of_RunThread_step: "order_of (fst (RunThread_step b f)) = order_of b"
  by (cases b) (auto split: option.splits)

lemma bench_step_cases:
  fixes cfg :: config
  assumes "P (bench cfg)" and "\<And>f. P (fst (RunThread_step (bench cfg) f))"
  shows "P (bench (step sched n cfg))"
proof (rule step_cases[where Q = "\<lambda>c. P (bench c)"])
  show "P (bench cfg)" by fact
next
  show "P (bench (main_step n (tick cfg)))"
    using assms(1) by (simp add: main_step_def tick_simps)
next
  fix t show "P (bench (worker_step t (tick cfg)))"
    using assms(2) by (simp add: worker_step_simps tick_simps)
qed

lemma GetName_spawn_and_join: "GetName (bench (spawn_and_join sched n b w)) = GetName b"
proof -
  let ?cfg0 = "\<lparr>bench = b, threads = [], joined = 0, outside = w\<rparr>"
  have "GetName (bench (exec sched n (work n ?cfg0) ?cfg0)) = GetName b"
  proof (rule exec_invariant[where P = "\<lambda>c. GetName (bench c) = GetName b"])
    show "GetName (bench ?cfg0) = GetName b" by simp
  next
    fix cfg :: config assume a: "GetName (bench cfg) = GetName b"
    show "GetName (bench (step sched n cfg)) = GetName b"
      by (rule bench_step_cases[where P = "\<lambda>x. GetName x = GetName b"])
         (simp_all add: GetName_RunThread_step a)
  qed
  then show ?thesis by (simp add: spawn_and_join_def Let_def)
qed

lemma order_of_spawn_and_join: "order_of (bench (spawn_and_join sched n b w)) = order_of b"
proof -
  let ?cfg0 = "\<lparr>bench = b, threads = [], joined = 0, outside = w\<rparr>"
  have "order_of (bench (exec sched n (work n ?cfg0) ?cfg0)) = order_of b"
  proof (rule exec_invariant[where P = "\<lambda>c. order_of (bench c) = order_of b"])
    show "order_of (bench ?cfg0) = order_of b" by simp
  next
    fix cfg :: config assume a: "order_of (bench cfg) = order_of b"
    show "order_of (bench (step sched n cfg)) = order_of b"
      by (rule bench_step_cases[where P = "\<lambda>x. order_of x = order_of b"])
         (simp_all add: order_of_RunThread_step a)
  qed
  then show ?thesis by (simp add: spawn_and_join_def Let_def)
qed

subsection \<open>The events of a sweep\<close>

lemma wrap_Suc: "k \<le> m \<Longrightarrow> m < SIZE_MAX \<Longrightarrow> (k + 1) mod 2 ^ 64 = Suc k"
  by (simp add: SIZE_MAX_def)

lemma Run_loop_step:
  assumes "k \<le> m" and "m < SIZE_MAX"
  shows "Run_loop sched clock m k b w =
          (case RunWithThreads sched clock k b w of
             None \<Rightarrow> None
           | Some (b', w') \<Rightarrow> Run_loop sched clock m (Suc k) b' w')"
proof -
  have w: "(k + 1) mod 2 ^ 64 = Suc k" by (rule wrap_Suc[OF assms])
  show ?thesis by (subst Run_loop.simps) (simp only: w assms(1) if_True)
qed

lemma Run_loop_done: "m < k \<Longrightarrow> Run_loop sched clock m k b w = Some (b, w)"
  by (subst Run_loop.simps) simp

lemma Run_loop_result:
  assumes "GetName b = Some nm" and "m < SIZE_MAX"
  shows "\<exists>b' w'. Run_loop sched clock m k b w = Some (b', w') \<and>
           GetName b' = Some nm \<and> order_of b' = order_of b \<and>
           events w' = events w @
             concat (map (\<lambda>j. trial_events nm j (clock (clock_reads w + 2 * (j - k)))
                                               (clock (clock_reads w + 2 * (j - k) + 1)))
                       [k..<Suc m]) \<and>
           clock_reads w' = clock_reads w + 2 * (Suc m - k)"
  using assms(1)
proof (induction "Suc m - k" arbitrary: k b w)
  case 0
  then have "m < k" by simp
  then show ?case using "0.prems" by (simp add: Run_loop_done)
next
  case (Suc d)
  then have True: "k \<le> m" and d: "d = Suc m - (k + 1)" by simp_all
  note nm = Suc.prems
  from RunWithThreads_result[OF nm, of sched clock k w]
  obtain w1 where r: "RunWithThreads sched clock k b w =
          Some (bench (spawn_and_join sched k b (world_at_start clock nm k w)), w1)"
    and e: "events w1 = events w @
          trial_events nm k (clock (clock_reads w)) (clock (Suc (clock_reads w)))"
    and c: "clock_reads w1 = clock_reads w + 2"
    by blast
  let ?b1 = "bench (spawn_and_join sched k b (world_at_start clock nm k w))"
  have n1: "GetName ?b1 = Some nm" using nm by (simp add: GetName_spawn_and_join)
  have o1: "order_of ?b1 = order_of b" by (simp add: order_of_spawn_and_join)
  from Suc.hyps(1)[OF d n1, of w1]
  obtain b' w' where l: "Run_loop sched clock m (k + 1) ?b1 w1 = Some (b', w')"
    and n': "GetName b' = Some nm" and o': "order_of b' = order_of ?b1"
    and e': "events w' = events w1 @
           concat (map (\<lambda>j. trial_events nm j (clock (clock_reads w1 + 2 * (j - (k + 1))))
                                             (clock (clock_reads w1 + 2 * (j - (k + 1)) + 1)))
                     [k + 1..<Suc m])"
    and c': "clock_reads w' = clock_reads w1 + 2 * (Suc m - (k + 1))"
    by blast
  let ?f = "\<lambda>j. trial_events nm j (clock (clock_reads w + 2 * (j - k)))
                                    (clock (clock_reads w + 2 * (j - k) + 1))"
  let ?g = "\<lambda>j. trial_events nm j (clock (clock_reads w1 + 2 * (j - (k + 1))))
                                    (clock (clock_reads w1 + 2 * (j - (k + 1)) + 1))"
  have run: "Run_loop sched clock m k b w = Some (b', w')"
    using r l by (simp add: Run_loop_step[OF True assms(2)])
  have upt: "[k..<Suc m] = k # [k + 1..<Suc m]"
    using True upt_conv_Cons[of k "Suc m"] by (simp del: upt_Suc)
  have meq: "map ?g [k + 1..<Suc m] = map ?f [k + 1..<Suc m]"
  proof (rule map_cong[OF refl])
    fix j assume "j \<in> set [k + 1..<Suc m]"
    then have "clock_reads w1 + 2 * (j - (k + 1)) = clock_reads w + 2 * (j - k)"
      using c by auto
    then show "?g j = ?f j" by simp
  qed
  have "events w' = events w @ ?f k @ concat (map ?f [k + 1..<Suc m])"
    unfolding e' e meq by (simp del: upt_Suc)
  then have ev: "events w' = events w @ concat (map ?f [k..<Suc m])"
    unfolding upt by (simp del: upt_Suc)
  have cr: "clock_reads w' = clock_reads w + 2 * (Suc m - k)"
    using c c' True by (simp add: Suc_diff_le)
  have o'': "order_of b' = order_of b" using o' o1 by simp
  from run n' o'' ev cr show ?case by blast
qed

lemma RunWithThreads_Some:
  assumes "GetName b = Some nm"
  shows "\<exists>b' w'. RunWithThreads sched clock n b w = Some (b', w') \<and> GetName b' = Some nm"
proof -
  from RunWithThreads_result[OF assms, of sched clock n w]
  obtain w' where "RunWithThreads sched clock n b w =
      Some (bench (spawn_and_join sched n b (world_at_start clock nm n w)), w')"
    by blast
  moreover have "GetName (bench (spawn_and_join sched n b (world_at_start clock nm n w))) = Some nm"
    using assms by (simp add: GetName_spawn_and_join)
  ultimately show ?thesis by blast
qed



subsection \<open>The atomic shared counter in a sweep\<close>

lemma RunWithThreads_atomic:
  assumes "GetName (AtomicBenchmark Order c) = Some nm"
    and "RunWithThreads sched clock n (AtomicBenchmark Order c) w = Some (b', w')"
  shows "b' = AtomicBenchmark Order (c + of_nat (n * Iterations))"
  using RunWithThreads_result[OF assms(1), of sched clock n w] assms(2)
  by (auto simp: spawn_and_join_atomic)

lemma GetName_atomic_Some:
  assumes "Order \<in> set memory_orders"
  shows "\<exists>nm. GetName (AtomicBenchmark Order c) = Some nm"
  using assms GetMemoryOrderRepr_None[of Order] by (cases "GetMemoryOrderRepr Order") auto


lemma sint_of_nat_64:
  assumes "x < 2 ^ 63"
  shows "sint (of_nat x :: 64 word) = int x"
proof -
  have "int x < 2 ^ 63" using assms by (metis of_nat_less_iff of_nat_numeral of_nat_power)
  then have "signed_take_bit 63 (int x) = int x"
    by (intro signed_take_bit_int_eq_self) simp_all
  then show ?thesis by (simp add: signed_of_nat)
qed

lemma baseline_RunThread_step:
  assumes "b = NonAtomicBaseline \<or> b = AtomicBaseline Order"
    and "frame_counter f = of_nat (frame_i f)" and "frame_i f \<le> Iterations"
  shows "fst (RunThread_step b f) = b"
    and "frame_counter (snd (RunThread_step b f)) = of_nat (frame_i (snd (RunThread_step b f)))"
    and "frame_i (snd (RunThread_step b f)) \<le> Iterations"
  using assms by auto

lemma private_ok_step:
  assumes b: "b = NonAtomicBaseline \<or> b = AtomicBaseline Order" and ok: "private_ok b cfg"
  shows "private_ok b (step sched n cfg)"
proof (rule step_cases)
  show "private_ok b cfg" by fact
next
  show "private_ok b (main_step n (tick cfg))"
    using ok by (auto simp: private_ok_def main_step_def tick_simps new_frame_def)
next
  fix t assume t: "t < length (threads cfg)"
  let ?f = "threads cfg ! t"
  from ok t have f: "frame_counter ?f = of_nat (frame_i ?f)" "frame_i ?f \<le> Iterations"
    by (simp_all add: private_ok_def)
  from ok have bc: "bench cfg = b" by (simp add: private_ok_def)
  note s = baseline_RunThread_step[OF b f]
  show "private_ok b (worker_step t (tick cfg))"
    unfolding private_ok_def
  proof (intro conjI ballI)
    show "bench (worker_step t (tick cfg)) = b"
      using s(1) bc by (simp add: worker_step_simps tick_simps)
  next
    fix g assume "g \<in> set (threads (worker_step t (tick cfg)))"
    then have "g = snd (RunThread_step b ?f) \<or> g \<in> set (threads cfg)"
      using bc by (auto simp: worker_step_simps tick_simps dest: in_set_updateD)
    then show "frame_counter g = of_nat (frame_i g)"
      using s(2) ok by (auto simp: private_ok_def)
  next
    fix g assume "g \<in> set (threads (worker_step t (tick cfg)))"
    then have "g = snd (RunThread_step b ?f) \<or> g \<in> set (threads cfg)"
      using bc by (auto simp: worker_step_simps tick_simps dest: in_set_updateD)
    then show "frame_i g \<le> Iterations"
      using s(3) ok by (auto simp: private_ok_def)
  qed
qed

lemma private_ok_exec:
  assumes "b = NonAtomicBaseline \<or> b = AtomicBaseline Order"
  shows "private_ok b (exec sched n fuel \<lparr>bench = b, threads = [], joined = 0, outside = w\<rparr>)"
proof (rule exec_invariant[where P = "private_ok b"])
  show "private_ok b \<lparr>bench = b, threads = [], joined = 0, outside = w\<rparr>"
    by (simp add: private_ok_def)
next
  fix cfg assume "private_ok b cfg"
  with assms show "private_ok b (step sched n cfg)" by (rule private_ok_step)
qed

lemma Iterations_word: "(of_nat Iterations :: 64 word) = 500000000"
  by (simp add: Iterations_def)

subsection \<open>The unsynchronised shared counter\<close>







text \<open>
  The race of \<open>NonAtomicBenchmark\<close> is in the model: both threads load 0, then both
  store 1. Two increments were made and the counter shows one.
\<close>

lemma race_loses_an_increment:
  "bench (exec racy_sched 2 6
            \<lparr>bench = NonAtomicBenchmark 0, threads = [], joined = 0, outside = world0\<rparr>)
     = NonAtomicBenchmark 1 \<and>
   map frame_i (threads (exec racy_sched 2 6
            \<lparr>bench = NonAtomicBenchmark 0, threads = [], joined = 0, outside = world0\<rparr>))
     = [1, 1] \<and>
   lost_update (outside (exec racy_sched 2 6
            \<lparr>bench = NonAtomicBenchmark 0, threads = [], joined = 0, outside = world0\<rparr>))"
proof -
  have six: "6 = Suc (Suc (Suc (Suc (Suc (Suc 0)))))" by simp
  have it: "0 < Iterations" "Suc 0 < Iterations" by (simp_all add: Iterations_def)
  show ?thesis
    unfolding six
    using it
    by (simp add: step_def runnable_def main_ready_def main_step_def
      worker_step_def tick_def emit_def finished_def new_frame_def world0_def racy_sched_def
      Let_def)
qed

subsection \<open>A trial with one thread loses no increment\<close>



lemma ten_less_SIZE_MAX: "10 < SIZE_MAX" and one_less_SIZE_MAX: "1 < SIZE_MAX"
  and two_less_SIZE_MAX: "2 < SIZE_MAX" and zero_less_SIZE_MAX: "0 < SIZE_MAX"
  by (simp_all add: SIZE_MAX_def)








subsection \<open>Thread starts and joins among the events\<close>

lemma started_append: "started (xs @ ys) = started xs @ started ys"
  by (simp add: started_def)

lemma joins_append: "joins (xs @ ys) = joins xs @ joins ys"
  by (simp add: joins_def)

lemma started_map_ThreadStart: "started (map ThreadStart ts) = ts"
  by (induction ts) (simp_all add: started_def)

lemma started_map_ThreadJoin: "started (map ThreadJoin ts) = []"
  by (induction ts) (simp_all add: started_def)

lemma joins_map_ThreadJoin: "joins (map ThreadJoin ts) = ts"
  by (induction ts) (simp_all add: joins_def)

lemma joins_map_ThreadStart: "joins (map ThreadStart ts) = []"
  by (induction ts) (simp_all add: joins_def)

lemma started_trial_events: "started (trial_events nm n t0 t1) = [0..<n]"
  unfolding trial_events_def started_append started_map_ThreadStart started_map_ThreadJoin
  by (simp add: started_def)

lemma joins_trial_events: "joins (trial_events nm n t0 t1) = [0..<n]"
  unfolding trial_events_def joins_append joins_map_ThreadStart joins_map_ThreadJoin
  by (simp add: joins_def)

lemma Run_result:
  assumes "GetName b = Some nm" and "m < SIZE_MAX"
  shows "\<exists>b' w'. Run sched clock m b w = Some (b', w') \<and>
           GetName b' = Some nm \<and> order_of b' = order_of b \<and>
           events w' = events w @ sweep_events clock nm (clock_reads w) m \<and>
           clock_reads w' = clock_reads w + 2 * m"
  using Run_loop_result[OF assms, of sched clock 1 w]
  by (simp add: Run_def sweep_events_def del: upt_Suc)

subsection \<open>Names\<close>

lemma RunWithThreads_class:
  assumes "RunWithThreads sched clock n b w = Some (b', w')"
  shows "GetName b' = GetName b" and "order_of b' = order_of b"
proof -
  from assms obtain nm where nm: "GetName b = Some nm"
    by (cases "GetName b") (simp_all add: RunWithThreads_def)
  from RunWithThreads_result[OF nm, of sched clock n w] assms
  have b': "b' = bench (spawn_and_join sched n b (world_at_start clock nm n w))" by auto
  show "GetName b' = GetName b" unfolding b' by (rule GetName_spawn_and_join)
  show "order_of b' = order_of b" unfolding b' by (rule order_of_spawn_and_join)
qed

lemma benchmarks_names:
  "map GetName benchmarks = map Some
     [''Non-atomic Baseline'', ''Non-atomic Benchmark'',
      ''Atomic Baseline (relaxed)'', ''Atomic Baseline (consume)'',
      ''Atomic Baseline (acquire)'', ''Atomic Baseline (release)'',
      ''Atomic Baseline (acq_rel)'', ''Atomic Baseline (seq_cst)'',
      ''Atomic Benchmark (relaxed)'', ''Atomic Benchmark (consume)'',
      ''Atomic Benchmark (acquire)'', ''Atomic Benchmark (release)'',
      ''Atomic Benchmark (acq_rel)'', ''Atomic Benchmark (seq_cst)'']"
  by (simp add: benchmarks_eq GetMemoryOrderRepr_simps)

lemma GetName_atomic_format:
  assumes "Order \<in> set memory_orders"
  shows "\<exists>r \<in> set [''relaxed'', ''consume'', ''acquire'', ''release'', ''acq_rel'', ''seq_cst''].
           GetMemoryOrderRepr Order = Some r \<and>
           GetName (AtomicBaseline Order) = Some (''Atomic Baseline'' @ '' ('' @ r @ '')'') \<and>
           GetName (AtomicBenchmark Order c) = Some (''Atomic Benchmark'' @ '' ('' @ r @ '')'')"
proof -
  from assms have "Order = memory_order_relaxed \<or> Order = memory_order_consume \<or>
      Order = memory_order_acquire \<or> Order = memory_order_release \<or>
      Order = memory_order_acq_rel \<or> Order = memory_order_seq_cst"
    by (simp add: memory_orders_eq)
  then show ?thesis
    by (elim disjE) (simp_all add: GetMemoryOrderRepr_simps)
qed

subsection \<open>The whole program\<close>

lemma benchmarks_named: "b \<in> set benchmarks \<Longrightarrow> GetName b = Some (name_of b)"
  unfolding benchmarks_eq
  by (elim disjE | simp only: set_simps insert_iff empty_iff)+
     (simp_all add: name_of_def GetMemoryOrderRepr_simps)

lemma run_all_result:
  assumes "\<forall>b \<in> set bs. GetName b = Some (name_of b)"
  shows "\<exists>bs' w'. run_all sched clock bs w = Some (bs', w') \<and>
           map GetName bs' = map GetName bs \<and> map order_of bs' = map order_of bs \<and>
           events w' = events w @
             concat (map (\<lambda>i. sweep_events clock (name_of (bs ! i)) (clock_reads w + 20 * i) 10)
                       [0..<length bs]) \<and>
           clock_reads w' = clock_reads w + 20 * length bs"
  using assms
proof (induction bs arbitrary: w)
  case Nil
  then show ?case by simp
next
  case (Cons b bs)
  have nm: "GetName b = Some (name_of b)" using Cons.prems by simp
  from Run_result[OF nm ten_less_SIZE_MAX, of sched clock w]
  obtain b1 w1 where r: "Run sched clock 10 b w = Some (b1, w1)"
    and n1: "GetName b1 = Some (name_of b)" and o1: "order_of b1 = order_of b"
    and e1: "events w1 = events w @ sweep_events clock (name_of b) (clock_reads w) 10"
    and c1: "clock_reads w1 = clock_reads w + 2 * 10"
    by blast
  have "\<forall>b \<in> set bs. GetName b = Some (name_of b)" using Cons.prems by simp
  from Cons.IH[OF this, of w1]
  obtain bs' w' where ra: "run_all sched clock bs w1 = Some (bs', w')"
    and ns: "map GetName bs' = map GetName bs" and os: "map order_of bs' = map order_of bs"
    and es: "events w' = events w1 @
             concat (map (\<lambda>i. sweep_events clock (name_of (bs ! i)) (clock_reads w1 + 20 * i) 10)
                       [0..<length bs])"
    and cs: "clock_reads w' = clock_reads w1 + 20 * length bs"
    by blast
  let ?F = "\<lambda>i. sweep_events clock (name_of ((b # bs) ! i)) (clock_reads w + 20 * i) 10"
  have run: "run_all sched clock (b # bs) w = Some (b1 # bs', w')"
    using r ra by simp
  have "map ?F [0..<length (b # bs)] = ?F 0 # map (\<lambda>i. ?F (Suc i)) [0..<length bs]"
    by (simp add: map_upt_Suc del: upt_Suc)
  also have "map (\<lambda>i. ?F (Suc i)) [0..<length bs]
      = map (\<lambda>i. sweep_events clock (name_of (bs ! i)) (clock_reads w1 + 20 * i) 10) [0..<length bs]"
    using c1 by (simp add: add.assoc)
  finally have "events w' = events w @ concat (map ?F [0..<length (b # bs)])"
    using e1 es by simp
  moreover have "map GetName (b1 # bs') = map GetName (b # bs)"
    using n1 nm ns by simp
  moreover have "map order_of (b1 # bs') = map order_of (b # bs)"
    using o1 os by simp
  moreover have "clock_reads w' = clock_reads w + 20 * length (b # bs)"
    using c1 cs by simp
  ultimately show ?case using run by blast
qed

lemma main_result:
  "\<exists>bs w. main sched clock = Some (0, bs, w) \<and>
     map GetName bs = map GetName benchmarks \<and> map order_of bs = map order_of benchmarks \<and>
     events w = program_events clock"
proof -
  have "\<forall>b \<in> set benchmarks. GetName b = Some (name_of b)"
    using benchmarks_named by blast
  from run_all_result[OF this, of sched clock world0]
  obtain bs w where "run_all sched clock benchmarks world0 = Some (bs, w)"
    and "map GetName bs = map GetName benchmarks" "map order_of bs = map order_of benchmarks"
    and "events w = events world0 @
             concat (map (\<lambda>i. sweep_events clock (name_of (benchmarks ! i))
                                (clock_reads world0 + 20 * i) 10)
                       [0..<length benchmarks])"
    by blast
  then show ?thesis
    by (simp add: main_def world0_def program_events_def)
qed

lemma length_benchmarks: "length benchmarks = 14"
  by (simp add: benchmarks_eq)

lemma Suc_10: "Suc 10 = 11"
  by simp

subsection \<open>What reaches standard output\<close>

lemma stdout_of_append: "stdout_of (xs @ ys) = stdout_of xs @ stdout_of ys"
  by (simp add: stdout_of_def)

lemma stdout_of_concat: "stdout_of (concat xss) = concat (map stdout_of xss)"
  by (induction xss) (simp_all add: stdout_of_append, simp add: stdout_of_def)

lemma stdout_of_map_ThreadStart: "stdout_of (map ThreadStart ts) = []"
  by (induction ts) (simp_all add: stdout_of_def)

lemma stdout_of_map_ThreadJoin: "stdout_of (map ThreadJoin ts) = []"
  by (induction ts) (simp_all add: stdout_of_def)

lemma stdout_of_trial_events:
  "stdout_of (trial_events nm n t0 t1) = report_line nm n (duration_ms t0 t1)"
  unfolding trial_events_def stdout_of_append stdout_of_map_ThreadStart stdout_of_map_ThreadJoin
  by (simp add: stdout_of_def report_line_def)

lemma stdout_of_sweep_events:
  "stdout_of (sweep_events clock nm r m) =
     concat (map (\<lambda>k. report_line nm k (duration_ms (clock (r + 2 * (k - 1)))
                                                     (clock (r + 2 * (k - 1) + 1))))
               [1..<Suc m])"
  unfolding sweep_events_def stdout_of_concat map_map comp_def stdout_of_trial_events ..

lemma stdout_of_program_events:
  "stdout_of (program_events clock) =
     concat (map (\<lambda>i. concat (map (\<lambda>k. report_line (name_of (benchmarks ! i)) k
                                   (duration_ms (clock (20 * i + 2 * (k - 1)))
                                                (clock (20 * i + 2 * (k - 1) + 1))))
                             [1..<11]))
               [0..<14])"
  unfolding program_events_def stdout_of_concat map_map comp_def stdout_of_sweep_events
    length_benchmarks Suc_10 ..

lemma started_concat: "started (concat xss) = concat (map started xss)"
  by (induction xss) (simp_all add: started_append, simp add: started_def)

lemma started_sweep_events:
  "started (sweep_events clock nm r m) = concat (map (\<lambda>k. [0..<k]) [1..<Suc m])"
  unfolding sweep_events_def started_concat map_map comp_def started_trial_events ..

lemma started_program_events:
  "started (program_events clock) =
     concat (map (\<lambda>i. concat (map (\<lambda>k. [0..<k]) [1..<11])) [0..<14])"
  unfolding program_events_def started_concat map_map comp_def started_sweep_events
    length_benchmarks Suc_10 ..

subsection \<open>Lines\<close>

lemma digit_char_digit: "d < 10 \<Longrightarrow> digit_char d \<in> set ''0123456789''"
  unfolding digit_char_def by (rule nth_mem) simp

lemma show_nat_digits: "set (show_nat n) \<subseteq> set ''0123456789''"
proof (induction n rule: show_nat.induct)
  case (1 n)
  show ?case
  proof (cases "n < 10")
    case True
    then show ?thesis using digit_char_digit[of n] by (subst show_nat.simps) simp
  next
    case False
    have "digit_char (n mod 10) \<in> set ''0123456789''" by (rule digit_char_digit) simp
    with False "1.IH" show ?thesis by (subst show_nat.simps) simp
  qed
qed

lemma show_nat_no_newline: "CHR 0x0A \<notin> set (show_nat n)"
  using show_nat_digits[of n] by auto

lemma show_int_no_newline: "CHR 0x0A \<notin> set (show_int x)"
  by (simp add: show_int_def show_nat_no_newline)

lemma count_newline_report_line:
  assumes "CHR 0x0A \<notin> set nm"
  shows "count_list (report_line nm k ms) (CHR 0x0A) = 1"
  using assms show_nat_no_newline[of k] show_int_no_newline[of ms]
  by (simp add: report_line_def newline_def count_list_0_iff)

lemma count_list_concat: "count_list (concat xss) x = sum_list (map (\<lambda>xs. count_list xs x) xss)"
  by (induction xss) simp_all

lemma sum_list_map_const: "(\<And>x. x \<in> set xs \<Longrightarrow> f x = c) \<Longrightarrow> sum_list (map f xs) = c * length xs"
  for c :: nat
  by (induction xs) simp_all

lemma count_newline_sweep:
  assumes "CHR 0x0A \<notin> set nm"
  shows "count_list (stdout_of (sweep_events clock nm r m)) (CHR 0x0A) = m"
proof -
  have "count_list (stdout_of (sweep_events clock nm r m)) (CHR 0x0A)
      = sum_list (map (\<lambda>k. count_list (report_line nm k (duration_ms (clock (r + 2 * (k - 1)))
                                                     (clock (r + 2 * (k - 1) + 1)))) (CHR 0x0A))
               [1..<Suc m])"
    unfolding stdout_of_sweep_events count_list_concat map_map comp_def ..
  also have "\<dots> = 1 * length [1..<Suc m]"
    by (rule sum_list_map_const) (rule count_newline_report_line[OF assms])
  finally show ?thesis by simp
qed

lemma benchmarks_names_no_newline: "b \<in> set benchmarks \<Longrightarrow> CHR 0x0A \<notin> set (name_of b)"
  unfolding benchmarks_eq
  by (elim disjE | simp only: set_simps insert_iff empty_iff)+
     (simp_all add: name_of_def GetMemoryOrderRepr_simps)

lemma count_newline_program:
  "count_list (stdout_of (program_events clock)) (CHR 0x0A) = 140"
proof -
  have "count_list (stdout_of (program_events clock)) (CHR 0x0A)
      = sum_list (map (\<lambda>i. count_list (stdout_of
            (sweep_events clock (name_of (benchmarks ! i)) (20 * i) 10)) (CHR 0x0A))
          [0..<length benchmarks])"
    unfolding program_events_def stdout_of_concat count_list_concat map_map comp_def ..
  also have "\<dots> = 10 * length [0..<length benchmarks]"
  proof (rule sum_list_map_const)
    fix i assume "i \<in> set [0..<length benchmarks]"
    then have "benchmarks ! i \<in> set benchmarks" by simp
    then have "CHR 0x0A \<notin> set (name_of (benchmarks ! i))"
      by (rule benchmarks_names_no_newline)
    then show "count_list (stdout_of
            (sweep_events clock (name_of (benchmarks ! i)) (20 * i) 10)) (CHR 0x0A) = 10"
      by (rule count_newline_sweep)
  qed
  finally show ?thesis by (simp add: length_benchmarks)
qed

subsection \<open>Printed numbers\<close>

text \<open>
  What \<open>operator<<\<close> writes for a number is its decimal numeral, and reading the numeral
  gives the number back. The milliseconds are the quotient, truncated towards zero, of
  the difference that the 64-bit subtraction of the two readings yields.
\<close>

lemma digit_of_digit_char: "d < 10 \<Longrightarrow> digit_of (digit_char d) = d"
proof -
  assume "d < 10"
  then have "d \<in> {0, 1, 2, 3, 4, 5, 6, 7, 8, 9}" by auto
  then show ?thesis
    by (elim insertE emptyE) (simp_all add: digit_of_def digit_char_def)
qed

lemma read_nat_snoc: "read_nat (s @ [ch]) = 10 * read_nat s + digit_of ch"
  by (simp add: read_nat_def)

lemma read_nat_show_nat: "read_nat (show_nat n) = n"
proof (induction n rule: show_nat.induct)
  case (1 n)
  show ?case
  proof (cases "n < 10")
    case True
    then show ?thesis
      by (subst show_nat.simps) (simp add: read_nat_def digit_of_digit_char)
  next
    case False
    have "digit_of (digit_char (n mod 10)) = n mod 10" by (rule digit_of_digit_char) simp
    with False "1.IH" show ?thesis
      by (subst show_nat.simps) (simp add: read_nat_snoc)
  qed
qed

lemma show_nat_not_Nil: "show_nat n \<noteq> []"
  by (subst show_nat.simps) simp

lemma read_int_show_int: "read_int (show_int x) = x"
proof (cases "x < 0")
  case True
  then show ?thesis by (simp add: show_int_def read_int_def read_nat_show_nat)
next
  case False
  obtain ch r where s: "show_nat (nat x) = ch # r"
    using show_nat_not_Nil[of "nat x"] by (cases "show_nat (nat x)") auto
  have "ch \<in> set ''0123456789''" using show_nat_digits[of "nat x"] s by auto
  then have "ch \<noteq> CHR ''-''" by auto
  then have "read_int (show_nat (nat x)) = int (read_nat (show_nat (nat x)))"
    by (simp add: read_int_def s)
  with False show ?thesis by (simp add: show_int_def read_nat_show_nat)
qed

lemma show_int_chars: "set (show_int x) \<subseteq> set ''-0123456789''"
proof (cases "x < 0")
  case True
  have "set (show_nat (nat (- x))) \<subseteq> set ''-0123456789''"
    by (rule subset_trans[OF show_nat_digits]) simp
  with True show ?thesis by (simp add: show_int_def)
next
  case False
  have "set (show_nat (nat x)) \<subseteq> set ''-0123456789''"
    by (rule subset_trans[OF show_nat_digits]) simp
  with False show ?thesis by (simp add: show_int_def)
qed

lemma duration_ms_wrapped:
  "duration_ms s e =
     (let d = sint (word_of_int (e - s) :: 64 word) in sgn d * (\<bar>d\<bar> div 1000000))"
  by (simp add: duration_ms_def Let_def sgn_if)

lemma duration_ms_in_range:
  assumes "- (2 ^ 63) \<le> e - s" and "e - s < 2 ^ 63"
  shows "duration_ms s e = sgn (e - s) * (\<bar>e - s\<bar> div 1000000)"
proof -
  have "sint (word_of_int (e - s) :: 64 word) = signed_take_bit (LENGTH(64) - 1) (e - s)"
    by (rule sint_sbintrunc')
  also have "\<dots> = e - s"
    by (rule signed_take_bit_int_eq_self) (use assms in simp_all)
  finally have eq: "sint (word_of_int (e - s) :: 64 word) = e - s" .
  show ?thesis unfolding duration_ms_wrapped Let_def eq by (rule refl)
qed

lemma digit_char_pos: "0 < d \<Longrightarrow> d < 10 \<Longrightarrow> digit_char d \<noteq> CHR ''0''"
proof -
  assume "0 < d" and "d < 10"
  then have "d \<in> {1, 2, 3, 4, 5, 6, 7, 8, 9}" by auto
  then show ?thesis
    by (elim insertE emptyE) (simp_all add: digit_char_def)
qed

lemma show_nat_no_leading_zero: "0 < n \<Longrightarrow> hd (show_nat n) \<noteq> CHR ''0''"
proof (induction n rule: show_nat.induct)
  case (1 n)
  show ?case
  proof (cases "n < 10")
    case True
    then show ?thesis using "1.prems" digit_char_pos[of n]
      by (subst show_nat.simps) simp
  next
    case False
    then have "0 < n div 10" by simp
    with False "1.IH" have "hd (show_nat (n div 10)) \<noteq> CHR ''0''" by simp
    with False show ?thesis
      by (subst show_nat.simps) (simp add: show_nat_not_Nil)
  qed
qed

lemma show_nat_0: "show_nat 0 = ''0''"
  by (simp add: show_nat.simps digit_char_def)

subsection \<open>Unsynchronised increments under contention\<close>













section \<open>The properties\<close>

text \<open>C1. A trial of an \<open>AtomicBenchmark\<close> with \<open>n\<close> worker threads, under every schedule of
  the threads and for each of the six memory orders, leaves the shared counter at its
  value before the trial plus \<open>n * Iterations\<close> (in 64-bit arithmetic): no \<open>fetch_add\<close> is
  lost. On a freshly constructed object, whose counter is 0, the value after the join
  is exactly \<open>n * Iterations\<close> whenever that number fits the signed 64-bit counter.
\<close>
theorem AtomicBenchmark_no_lost_updates:
  assumes "Order \<in> set memory_orders"
  shows "(\<exists>w'. RunWithThreads sched clock n (AtomicBenchmark Order c) w =
             Some (AtomicBenchmark Order (c + of_nat (n * Iterations)), w')) \<and>
         (n * Iterations < 2 ^ 63 \<longrightarrow>
            (\<exists>b' w'. RunWithThreads sched clock n (new_AtomicBenchmark Order) w = Some (b', w') \<and>
                     counter_value b' = Some (int (n * Iterations))))"
proof -
  from GetName_atomic_Some[OF assms] obtain nm
    where nm: "\<And>c'. GetName (AtomicBenchmark Order c') = Some nm"
    by (auto split: option.splits)
  have run: "\<exists>w'. RunWithThreads sched clock n (AtomicBenchmark Order c') w =
             Some (AtomicBenchmark Order (c' + of_nat (n * Iterations)), w')" for c'
    using RunWithThreads_Some[OF nm[of c'], where sched = sched and clock = clock and n = n and w = w]
      RunWithThreads_atomic[OF nm[of c']]
    by blast
  have "counter_value (AtomicBenchmark Order (0 + of_nat (n * Iterations))) =
          Some (int (n * Iterations))" if "n * Iterations < 2 ^ 63"
    using sint_of_nat_64[OF that] by (simp add: counter_value_def del: of_nat_mult)
  with run[of 0] have "n * Iterations < 2 ^ 63 \<longrightarrow>
            (\<exists>b' w'. RunWithThreads sched clock n (new_AtomicBenchmark Order) w = Some (b', w') \<and>
                     counter_value b' = Some (int (n * Iterations)))"
    unfolding new_AtomicBenchmark_def by blast
  with run[of c] show ?thesis by blast
qed
theorem AtomicBenchmark_no_lost_updates_witness:
  "memory_order_seq_cst \<in> set memory_orders \<and> 4 * Iterations < 2 ^ 63 \<and>
   (\<exists>b' w'. RunWithThreads (\<lambda>k. 0) (\<lambda>k. 0) 4 (new_AtomicBenchmark memory_order_seq_cst) world0
               = Some (b', w') \<and>
             counter_value b' = Some 2000000000)"
proof -
  have m: "memory_order_seq_cst \<in> set memory_orders" by (simp add: memory_orders_eq)
  have l: "4 * Iterations < 2 ^ 63" by (simp add: Iterations_def)
  have v: "int (4 * Iterations) = 2000000000" by (simp add: Iterations_def)
  have "\<exists>b' w'. RunWithThreads (\<lambda>k. 0) (\<lambda>k. 0) 4 (new_AtomicBenchmark memory_order_seq_cst) world0
               = Some (b', w') \<and>
             counter_value b' = Some (int (4 * Iterations))"
    using AtomicBenchmark_no_lost_updates[OF m, where sched = "\<lambda>k. 0" and clock = "\<lambda>k. 0"
        and n = 4 and w = world0] l
    by blast
  then show ?thesis using m l unfolding v by blast
qed

text \<open>C2. In a trial of a baseline object (\<open>NonAtomicBaseline\<close>, or \<open>AtomicBaseline\<close> of
  any order) every worker thread starts with a local counter of its own that is 0. At
  every moment of the trial, under every schedule, the local counter of a thread equals
  the number of passes that thread has made through its loop; when the trial is over
  there are \<open>n\<close> threads, each has left its loop, and each local counter is exactly
  \<open>Iterations\<close> = 500,000,000.
\<close>
theorem baseline_private_counters:
  assumes "b = NonAtomicBaseline \<or> b = AtomicBaseline Order"
  shows "frame_counter new_frame = 0 \<and>
         (\<forall>f \<in> set (threads (exec sched n fuel \<lparr>bench = b, threads = [], joined = 0, outside = w\<rparr>)).
             frame_counter f = of_nat (frame_i f) \<and> frame_i f \<le> Iterations) \<and>
         length (threads (spawn_and_join sched n b w)) = n \<and>
         (\<forall>f \<in> set (threads (spawn_and_join sched n b w)).
             finished f \<and> frame_counter f = 500000000 \<and> sint (frame_counter f) = int Iterations)"
proof (intro conjI ballI)
  show "frame_counter new_frame = 0" by (simp add: new_frame_def)
next
  fix f assume "f \<in> set (threads (exec sched n fuel \<lparr>bench = b, threads = [], joined = 0, outside = w\<rparr>))"
  with private_ok_exec[OF assms, of sched n fuel w]
  show "frame_counter f = of_nat (frame_i f)" "frame_i f \<le> Iterations"
    by (simp_all add: private_ok_def)
next
  show "length (threads (spawn_and_join sched n b w)) = n"
    by (rule spawn_and_join_final(1))
next
  fix f assume f: "f \<in> set (threads (spawn_and_join sched n b w))"
  then show "finished f" using spawn_and_join_final(3) by blast
  have i: "frame_i f = Iterations" using f by (rule spawn_and_join_i)
  have "private_ok b (spawn_and_join sched n b w)"
    unfolding spawn_and_join_def Let_def by (rule private_ok_exec[OF assms])
  with f i have c: "frame_counter f = of_nat Iterations" by (simp add: private_ok_def)
  then show "frame_counter f = 500000000" by (simp add: Iterations_word)
  from c show "sint (frame_counter f) = int Iterations" by (simp add: Iterations_def)
qed
theorem baseline_private_counters_witness:
  "map (\<lambda>f. sint (frame_counter f))
     (threads (spawn_and_join (\<lambda>k. 0) 3 (AtomicBaseline memory_order_relaxed) world0))
     = [500000000, 500000000, 500000000] \<and>
   threads (exec (\<lambda>k. 0) 3 1 \<lparr>bench = AtomicBaseline memory_order_relaxed, threads = [],
                                joined = 0, outside = world0\<rparr>) = [new_frame]"
proof -
  let ?ts = "threads (spawn_and_join (\<lambda>k. 0) 3 (AtomicBaseline memory_order_relaxed) world0)"
  have b: "AtomicBaseline memory_order_relaxed = NonAtomicBaseline \<or>
           AtomicBaseline memory_order_relaxed = AtomicBaseline memory_order_relaxed"
    by simp
  have e: "threads (exec (\<lambda>k. 0) 3 1 \<lparr>bench = AtomicBaseline memory_order_relaxed, threads = [],
                                joined = 0, outside = world0\<rparr>) = [new_frame]"
    by (simp add: step_def runnable_def main_ready_def main_step_def tick_def)
  note t = baseline_private_counters[OF b, where sched = "\<lambda>k. 0" and n = 3 and w = world0
      and fuel = 1]
  note t3 = t[THEN conjunct2, THEN conjunct2]
  have l: "length ?ts = 3" by (rule t3[THEN conjunct1])
  have a: "\<forall>f \<in> set ?ts. sint (frame_counter f) = int Iterations"
    using t3[THEN conjunct2] by blast
  from a have "map (\<lambda>f. sint (frame_counter f)) ?ts = map (\<lambda>f. 500000000) ?ts"
    by (intro map_cong refl) (simp add: Iterations_def)
  also have "\<dots> = replicate (length ?ts) 500000000" by (rule map_replicate_const)
  also have "\<dots> = [500000000, 500000000, 500000000]"
    unfolding l by (simp add: numeral_3_eq_3)
  finally show ?thesis using e by (intro conjI)
qed

text \<open>C3. \<open>RunWithThreads\<close> with \<open>n\<close> threads returns, whatever the schedule. Between
  the first clock reading and the second it starts the threads 0 to \<open>n - 1\<close> and then
  joins the threads 0 to \<open>n - 1\<close>, and nothing else; only after the last join does it
  read the clock again and write the elapsed time. When it returns there are exactly \<open>n\<close>
  threads, all joined, and each has made all \<open>Iterations\<close> passes of the \<open>RunThread\<close>
  loop of the one object whose \<open>RunWithThreads\<close> was called.
\<close>
theorem RunWithThreads_spawns_and_joins:
  assumes "GetName b = Some nm"
  shows "\<exists>w'. RunWithThreads sched clock n b w =
            Some (bench (spawn_and_join sched n b (world_at_start clock nm n w)), w') \<and>
          events w' = events w @
            [Write nm, Write '': numThreads = '', Write (show_nat n), Write '' ... '', Flush,
             Now (clock (clock_reads w))]
            @ map ThreadStart [0..<n] @ map ThreadJoin [0..<n]
            @ [Now (clock (Suc (clock_reads w))),
               Write (show_int (duration_ms (clock (clock_reads w)) (clock (Suc (clock_reads w))))),
               Write '' ms'', Write newline, Flush] \<and>
          started (events w') = started (events w) @ [0..<n] \<and>
          joins (events w') = joins (events w) @ [0..<n] \<and>
          length (threads (spawn_and_join sched n b (world_at_start clock nm n w))) = n \<and>
          joined (spawn_and_join sched n b (world_at_start clock nm n w)) = n \<and>
          (\<forall>f \<in> set (threads (spawn_and_join sched n b (world_at_start clock nm n w))).
              finished f \<and> frame_i f = Iterations) \<and>
          GetName (bench (spawn_and_join sched n b (world_at_start clock nm n w))) = Some nm"
proof -
  let ?cfg = "spawn_and_join sched n b (world_at_start clock nm n w)"
  let ?t0 = "clock (clock_reads w)" and ?t1 = "clock (Suc (clock_reads w))"
  from RunWithThreads_result[OF assms, of sched clock n w]
  obtain w' where r: "RunWithThreads sched clock n b w = Some (bench ?cfg, w')"
    and e: "events w' = events w @ trial_events nm n ?t0 ?t1"
    by blast
  have e': "events w' = events w @
            [Write nm, Write '': numThreads = '', Write (show_nat n), Write '' ... '', Flush,
             Now ?t0]
            @ map ThreadStart [0..<n] @ map ThreadJoin [0..<n]
            @ [Now ?t1, Write (show_int (duration_ms ?t0 ?t1)), Write '' ms'', Write newline, Flush]"
    unfolding e trial_events_def by simp
  have s: "started (events w') = started (events w) @ [0..<n]"
    unfolding e started_append started_trial_events ..
  have j: "joins (events w') = joins (events w) @ [0..<n]"
    unfolding e joins_append joins_trial_events ..
  have l: "length (threads ?cfg) = n" by (rule spawn_and_join_final(1))
  have jd: "joined ?cfg = n" by (rule spawn_and_join_final(2))
  have f: "\<forall>f \<in> set (threads ?cfg). finished f \<and> frame_i f = Iterations"
    using spawn_and_join_final(3) spawn_and_join_i by blast
  have g: "GetName (bench ?cfg) = Some nm"
    using assms by (simp add: GetName_spawn_and_join)
  show ?thesis
  proof (intro exI conjI)
    show "RunWithThreads sched clock n b w = Some (bench ?cfg, w')" by (rule r)
  qed (rule e' s j l jd f g)+
qed
theorem RunWithThreads_spawns_and_joins_witness:
  "GetName NonAtomicBaseline = Some ''Non-atomic Baseline'' \<and>
   (\<exists>b' w'. RunWithThreads (\<lambda>k. 0) (\<lambda>k. 0) 2 NonAtomicBaseline world0 = Some (b', w') \<and>
      started (events w') = [0, 1] \<and> joins (events w') = [0, 1])"
proof -
  have n: "GetName NonAtomicBaseline = Some ''Non-atomic Baseline''" by simp
  have u: "[0..<2] = [0, Suc 0]" by (simp add: upt_rec)
  from RunWithThreads_spawns_and_joins[OF n, of "\<lambda>k. 0" "\<lambda>k. 0" 2 world0]
  obtain w' where "RunWithThreads (\<lambda>k. 0) (\<lambda>k. 0) 2 NonAtomicBaseline world0 =
      Some (bench (spawn_and_join (\<lambda>k. 0) 2 NonAtomicBaseline
              (world_at_start (\<lambda>k. 0) ''Non-atomic Baseline'' 2 world0)), w')"
    and "started (events w') = started (events world0) @ [0..<2]"
    and "joins (events w') = joins (events world0) @ [0..<2]"
    by blast
  then have "\<exists>b' w'. RunWithThreads (\<lambda>k. 0) (\<lambda>k. 0) 2 NonAtomicBaseline world0 = Some (b', w') \<and>
      started (events w') = [0, 1] \<and> joins (events w') = [0, 1]"
    unfolding u by (simp add: world0_def started_def joins_def)
  with n show ?thesis by (intro conjI)
qed



text \<open>C6. The 14 objects that \<open>main\<close> constructs have 14 different names, listed below.
  The name of an object of an atomic class is the class's base name, a space, and in
  parentheses the label that \<open>GetMemoryOrderRepr\<close> gives for the class's memory order,
  one of the six labels. The name is stable: it depends on the class and its order
  only, not on the counter, and an object has the same name and order after a trial.
\<close>
theorem GetName_distinct_and_stable:
  "length benchmarks = 14 \<and>
   map GetName benchmarks = map Some
     [''Non-atomic Baseline'', ''Non-atomic Benchmark'',
      ''Atomic Baseline (relaxed)'', ''Atomic Baseline (consume)'',
      ''Atomic Baseline (acquire)'', ''Atomic Baseline (release)'',
      ''Atomic Baseline (acq_rel)'', ''Atomic Baseline (seq_cst)'',
      ''Atomic Benchmark (relaxed)'', ''Atomic Benchmark (consume)'',
      ''Atomic Benchmark (acquire)'', ''Atomic Benchmark (release)'',
      ''Atomic Benchmark (acq_rel)'', ''Atomic Benchmark (seq_cst)''] \<and>
   distinct (map GetName benchmarks) \<and>
   (\<forall>Order \<in> set memory_orders.
      \<exists>r \<in> set [''relaxed'', ''consume'', ''acquire'', ''release'', ''acq_rel'', ''seq_cst''].
        GetMemoryOrderRepr Order = Some r \<and>
        GetName (AtomicBaseline Order) = Some (''Atomic Baseline'' @ '' ('' @ r @ '')'') \<and>
        GetName (AtomicBenchmark Order c) = Some (''Atomic Benchmark'' @ '' ('' @ r @ '')'')) \<and>
   GetName (NonAtomicBenchmark c) = GetName (NonAtomicBenchmark c') \<and>
   GetName (AtomicBenchmark Order' c) = GetName (AtomicBenchmark Order' c') \<and>
   (\<forall>b' w'. RunWithThreads sched clock n b w = Some (b', w') \<longrightarrow>
       GetName b' = GetName b \<and> order_of b' = order_of b)"
proof (intro conjI)
  show "length benchmarks = 14" by (simp add: benchmarks_eq)
  show n: "map GetName benchmarks = map Some
     [''Non-atomic Baseline'', ''Non-atomic Benchmark'',
      ''Atomic Baseline (relaxed)'', ''Atomic Baseline (consume)'',
      ''Atomic Baseline (acquire)'', ''Atomic Baseline (release)'',
      ''Atomic Baseline (acq_rel)'', ''Atomic Baseline (seq_cst)'',
      ''Atomic Benchmark (relaxed)'', ''Atomic Benchmark (consume)'',
      ''Atomic Benchmark (acquire)'', ''Atomic Benchmark (release)'',
      ''Atomic Benchmark (acq_rel)'', ''Atomic Benchmark (seq_cst)'']"
    by (rule benchmarks_names)
  show "distinct (map GetName benchmarks)" unfolding n by simp
  show "\<forall>Order \<in> set memory_orders.
      \<exists>r \<in> set [''relaxed'', ''consume'', ''acquire'', ''release'', ''acq_rel'', ''seq_cst''].
        GetMemoryOrderRepr Order = Some r \<and>
        GetName (AtomicBaseline Order) = Some (''Atomic Baseline'' @ '' ('' @ r @ '')'') \<and>
        GetName (AtomicBenchmark Order c) = Some (''Atomic Benchmark'' @ '' ('' @ r @ '')'')"
    by (intro ballI GetName_atomic_format)
  show "GetName (NonAtomicBenchmark c) = GetName (NonAtomicBenchmark c')" by simp
  show "GetName (AtomicBenchmark Order' c) = GetName (AtomicBenchmark Order' c')" by simp
  show "\<forall>b' w'. RunWithThreads sched clock n b w = Some (b', w') \<longrightarrow>
       GetName b' = GetName b \<and> order_of b' = order_of b"
  proof (intro allI impI)
    fix b' w' assume "RunWithThreads sched clock n b w = Some (b', w')"
    then show "GetName b' = GetName b \<and> order_of b' = order_of b"
      by (intro conjI RunWithThreads_class)
  qed
qed
theorem GetName_distinct_and_stable_witness:
  "memory_order_consume \<in> set memory_orders \<and>
   GetName (AtomicBenchmark memory_order_consume 5) = Some ''Atomic Benchmark (consume)'' \<and>
   (\<exists>b' w'. RunWithThreads (\<lambda>k. 0) (\<lambda>k. 0) 2 (AtomicBenchmark memory_order_consume 5) world0
               = Some (b', w') \<and>
             GetName b' = Some ''Atomic Benchmark (consume)'')"
proof -
  have m: "memory_order_consume \<in> set memory_orders" by (simp add: memory_orders_eq)
  have g: "GetName (AtomicBenchmark memory_order_consume 5) = Some ''Atomic Benchmark (consume)''"
    by (simp add: GetMemoryOrderRepr_simps)
  from RunWithThreads_Some[OF g, of "\<lambda>k. 0" "\<lambda>k. 0" 2 world0]
  obtain b' w' where r: "RunWithThreads (\<lambda>k. 0) (\<lambda>k. 0) 2 (AtomicBenchmark memory_order_consume 5) world0
               = Some (b', w')"
    by blast
  note t = GetName_distinct_and_stable[where sched = "\<lambda>k. 0" and clock = "\<lambda>k. 0" and n = 2
      and b = "AtomicBenchmark memory_order_consume 5" and w = world0]
  note last = t[THEN conjunct2, THEN conjunct2, THEN conjunct2, THEN conjunct2,
      THEN conjunct2, THEN conjunct2, rule_format, OF r]
  from last have "GetName b' = GetName (AtomicBenchmark memory_order_consume 5)"
    by (rule conjunct1)
  with r g m show ?thesis by (intro conjI exI[of _ b'] exI[of _ w']) simp_all
qed

text \<open>C7. When its macros have run, the vector of \<open>main\<close> holds 14 objects in this order:
  the non-atomic baseline, the non-atomic benchmark, the six atomic baselines in the
  order relaxed, consume, acquire, release, acq_rel, seq_cst, and the six atomic
  benchmarks in the same order. \<open>main\<close> returns, and what it did is the sweep of the first
  object, then the sweep of the second, and so on to the fourteenth: the sweep of object
  \<open>i\<close> (counted from 0) is whole, has ten trials and uses the clock readings from
  \<open>20 * i\<close> on. The objects are left in place, each with its name and order.
\<close>
theorem main_runs_benchmarks_in_order:
  "benchmarks =
     [NonAtomicBaseline, NonAtomicBenchmark 0,
      AtomicBaseline memory_order_relaxed, AtomicBaseline memory_order_consume,
      AtomicBaseline memory_order_acquire, AtomicBaseline memory_order_release,
      AtomicBaseline memory_order_acq_rel, AtomicBaseline memory_order_seq_cst,
      AtomicBenchmark memory_order_relaxed 0, AtomicBenchmark memory_order_consume 0,
      AtomicBenchmark memory_order_acquire 0, AtomicBenchmark memory_order_release 0,
      AtomicBenchmark memory_order_acq_rel 0, AtomicBenchmark memory_order_seq_cst 0] \<and>
   (\<exists>bs w. main sched clock = Some (0, bs, w) \<and>
      map GetName bs = map GetName benchmarks \<and> map order_of bs = map order_of benchmarks \<and>
      events w =
        concat (map (\<lambda>i. sweep_events clock (name_of (benchmarks ! i)) (20 * i) 10) [0..<14]))"
proof -
  have ex: "\<exists>bs w. main sched clock = Some (0, bs, w) \<and>
      map GetName bs = map GetName benchmarks \<and> map order_of bs = map order_of benchmarks \<and>
      events w =
        concat (map (\<lambda>i. sweep_events clock (name_of (benchmarks ! i)) (20 * i) 10) [0..<14])"
    using main_result[of sched clock] unfolding program_events_def length_benchmarks .
  show ?thesis by (rule conjI[OF benchmarks_eq ex])
qed
theorem main_runs_benchmarks_in_order_witness:
  "benchmarks ! 9 = AtomicBenchmark memory_order_consume 0 \<and>
   (\<exists>bs w. main (\<lambda>k. k) (\<lambda>k. int k) = Some (0, bs, w) \<and> length bs = 14)"
proof -
  note t = main_runs_benchmarks_in_order[of "\<lambda>k. k" "\<lambda>k. int k"]
  have a: "benchmarks ! 9 = AtomicBenchmark memory_order_consume 0"
    by (subst t[THEN conjunct1]) simp
  from t[THEN conjunct2] obtain bs w where m: "main (\<lambda>k. k) (\<lambda>k. int k) = Some (0, bs, w)"
    and n: "map GetName bs = map GetName benchmarks"
    by blast
  from n have "length bs = length benchmarks" by (rule map_eq_imp_length_eq)
  with m a show ?thesis by (simp add: length_benchmarks)
qed

text \<open>C8. The program writes to \<open>std::cout\<close> only. When \<open>main\<close> returns, with exit code 0,
  the text written is, for each of the 14 objects in order and each thread count from 1
  to 10 in order, the line: name, \<open>": numThreads = "\<close>, the thread count, \<open>" ... "\<close>, the
  elapsed milliseconds, \<open>" ms"\<close>, new line; such a line has one new-line character, its
  last. Within a trial the text up to \<open>" ... "\<close> is written and flushed before any thread
  is started; while the threads start, run and are joined nothing is written; the
  milliseconds and \<open>" ms"\<close> are written after the last join. The thread count is written
  in decimal digits, without leading zero; so are the milliseconds, after a minus sign
  when they are negative. The milliseconds are the second clock reading minus the
  first, as the subtraction in 64 bits gives it, divided by 1000000 and rounded
  towards zero: the elapsed nanoseconds so divided whenever their difference fits 64
  bits.
\<close>
theorem output_format_and_flush:
  "(\<exists>bs w. main sched clock = Some (0, bs, w) \<and>
      stdout_of (events w) =
        concat (map (\<lambda>i. concat (map (\<lambda>k. report_line (name_of (benchmarks ! i)) k
                                   (duration_ms (clock (20 * i + 2 * (k - 1)))
                                                (clock (20 * i + 2 * (k - 1) + 1))))
                             [1..<11]))
               [0..<14])) \<and>
   (\<forall>b \<in> set benchmarks.
      count_list (report_line (name_of b) k ms) (CHR 0x0A) = 1 \<and>
      last (report_line (name_of b) k ms) = CHR 0x0A) \<and>
   (GetName b = Some nm \<longrightarrow>
      (\<exists>b' w' pre mid post.
          RunWithThreads sched clock n b w = Some (b', w') \<and>
          events w' = events w @ pre @ [Flush] @ mid @ post \<and>
          stdout_of pre = nm @ '': numThreads = '' @ show_nat n @ '' ... '' \<and>
          started pre = [] \<and>
          stdout_of mid = [] \<and> started mid = [0..<n] \<and> joins mid = [0..<n] \<and>
          started post = [] \<and> joins post = [] \<and>
          stdout_of post =
            show_int (duration_ms (clock (clock_reads w)) (clock (Suc (clock_reads w))))
            @ '' ms'' @ newline)) \<and>
   read_nat (show_nat n) = n \<and> show_nat n \<noteq> [] \<and>
   set (show_nat n) \<subseteq> set ''0123456789'' \<and>
   show_nat 0 = ''0'' \<and> (0 < n \<longrightarrow> hd (show_nat n) \<noteq> CHR ''0'') \<and>
   read_int (show_int x) = x \<and>
   (0 \<le> x \<longrightarrow> show_int x = show_nat (nat x)) \<and>
   (x < 0 \<longrightarrow> show_int x = CHR ''-'' # show_nat (nat (- x))) \<and>
   duration_ms s e =
     (let d = sint (word_of_int (e - s) :: 64 word) in sgn d * (\<bar>d\<bar> div 1000000)) \<and>
   (- (2 ^ 63) \<le> e - s \<and> e - s < 2 ^ 63 \<longrightarrow>
      duration_ms s e = sgn (e - s) * (\<bar>e - s\<bar> div 1000000))"
proof -
  have main_part: "(\<exists>bs w. main sched clock = Some (0, bs, w) \<and>
          stdout_of (events w) =
            concat (map (\<lambda>i. concat (map (\<lambda>k. report_line (name_of (benchmarks ! i)) k
                                       (duration_ms (clock (20 * i + 2 * (k - 1)))
                                                    (clock (20 * i + 2 * (k - 1) + 1))))
                                 [1..<11]))
                   [0..<14])) \<and>
       (\<forall>b \<in> set benchmarks.
          count_list (report_line (name_of b) k ms) (CHR 0x0A) = 1 \<and>
          last (report_line (name_of b) k ms) = CHR 0x0A) \<and>
       (GetName b = Some nm \<longrightarrow>
          (\<exists>b' w' pre mid post.
              RunWithThreads sched clock n b w = Some (b', w') \<and>
              events w' = events w @ pre @ [Flush] @ mid @ post \<and>
              stdout_of pre = nm @ '': numThreads = '' @ show_nat n @ '' ... '' \<and>
              started pre = [] \<and>
              stdout_of mid = [] \<and> started mid = [0..<n] \<and> joins mid = [0..<n] \<and>
              started post = [] \<and> joins post = [] \<and>
              stdout_of post =
                show_int (duration_ms (clock (clock_reads w)) (clock (Suc (clock_reads w))))
                @ '' ms'' @ newline))"
  proof (intro conjI ballI impI)
  from main_result[of sched clock] obtain bs w
    where m: "main sched clock = Some (0, bs, w)" and e: "events w = program_events clock"
    by blast
  show "\<exists>bs w. main sched clock = Some (0, bs, w) \<and>
      stdout_of (events w) =
        concat (map (\<lambda>i. concat (map (\<lambda>k. report_line (name_of (benchmarks ! i)) k
                                   (duration_ms (clock (20 * i + 2 * (k - 1)))
                                                (clock (20 * i + 2 * (k - 1) + 1))))
                             [1..<11]))
               [0..<14])"
    using m unfolding stdout_of_program_events[symmetric] e[symmetric] by blast
next
  fix b' assume "b' \<in> set benchmarks"
  then show "count_list (report_line (name_of b') k ms) (CHR 0x0A) = 1"
    by (intro count_newline_report_line benchmarks_names_no_newline)
  show "last (report_line (name_of b') k ms) = CHR 0x0A"
    by (simp add: report_line_def newline_def)
next
  assume nm: "GetName b = Some nm"
  let ?t0 = "clock (clock_reads w)" and ?t1 = "clock (Suc (clock_reads w))"
  let ?pre = "[Write nm, Write '': numThreads = '', Write (show_nat n), Write '' ... '']"
  let ?mid = "[Now ?t0] @ map ThreadStart [0..<n] @ map ThreadJoin [0..<n] @ [Now ?t1]"
  let ?post = "[Write (show_int (duration_ms ?t0 ?t1)), Write '' ms'', Write newline, Flush]"
  from RunWithThreads_result[OF nm, of sched clock n w]
  obtain w' where r: "RunWithThreads sched clock n b w =
      Some (bench (spawn_and_join sched n b (world_at_start clock nm n w)), w')"
    and e: "events w' = events w @ trial_events nm n ?t0 ?t1"
    by blast
  have e': "events w' = events w @ ?pre @ [Flush] @ ?mid @ ?post"
    unfolding e trial_events_def by simp
  have p1: "stdout_of ?pre = nm @ '': numThreads = '' @ show_nat n @ '' ... ''"
    and p2: "started ?pre = []"
    by (simp_all add: stdout_of_def started_def)
  have m1: "stdout_of ?mid = []"
    unfolding stdout_of_append stdout_of_map_ThreadStart stdout_of_map_ThreadJoin
    by (simp add: stdout_of_def)
  have m2: "started ?mid = [0..<n]"
    unfolding started_append started_map_ThreadStart started_map_ThreadJoin
    by (simp add: started_def)
  have m3: "joins ?mid = [0..<n]"
    unfolding joins_append joins_map_ThreadStart joins_map_ThreadJoin
    by (simp add: joins_def)
  have q1: "started ?post = []" and q2: "joins ?post = []"
    and q3: "stdout_of ?post = show_int (duration_ms ?t0 ?t1) @ '' ms'' @ newline"
    by (simp_all add: stdout_of_def started_def joins_def)
  show "\<exists>b' w' pre mid post.
          RunWithThreads sched clock n b w = Some (b', w') \<and>
          events w' = events w @ pre @ [Flush] @ mid @ post \<and>
          stdout_of pre = nm @ '': numThreads = '' @ show_nat n @ '' ... '' \<and>
          started pre = [] \<and>
          stdout_of mid = [] \<and> started mid = [0..<n] \<and> joins mid = [0..<n] \<and>
          started post = [] \<and> joins post = [] \<and>
          stdout_of post = show_int (duration_ms ?t0 ?t1) @ '' ms'' @ newline"
  proof (intro exI conjI)
    show "RunWithThreads sched clock n b w =
      Some (bench (spawn_and_join sched n b (world_at_start clock nm n w)), w')"
      by (rule r)
    show "events w' = events w @ ?pre @ [Flush] @ ?mid @ ?post" by (rule e')
  qed (rule p1 p2 m1 m2 m3 q1 q2 q3)+
qed
  note m1 = main_part[THEN conjunct1]
    and m2 = main_part[THEN conjunct2, THEN conjunct1]
    and m3 = main_part[THEN conjunct2, THEN conjunct2]
  have n1: "read_nat (show_nat n) = n" by (rule read_nat_show_nat)
  have n2: "show_nat n \<noteq> []" by (rule show_nat_not_Nil)
  have n3: "set (show_nat n) \<subseteq> set ''0123456789''" by (rule show_nat_digits)
  have n4: "show_nat 0 = ''0''" by (rule show_nat_0)
  have n5: "0 < n \<longrightarrow> hd (show_nat n) \<noteq> CHR ''0''"
    by (intro impI) (rule show_nat_no_leading_zero)
  have i1: "read_int (show_int x) = x" by (rule read_int_show_int)
  have i2: "0 \<le> x \<longrightarrow> show_int x = show_nat (nat x)" by (simp add: show_int_def)
  have i3: "x < 0 \<longrightarrow> show_int x = CHR ''-'' # show_nat (nat (- x))"
    by (simp add: show_int_def)
  have d1: "duration_ms s e =
        (let d = sint (word_of_int (e - s) :: 64 word) in sgn d * (\<bar>d\<bar> div 1000000))"
    by (rule duration_ms_wrapped)
  have d2: "- (2 ^ 63) \<le> e - s \<and> e - s < 2 ^ 63 \<longrightarrow>
         duration_ms s e = sgn (e - s) * (\<bar>e - s\<bar> div 1000000)"
  proof
    assume "- (2 ^ 63) \<le> e - s \<and> e - s < 2 ^ 63"
    then show "duration_ms s e = sgn (e - s) * (\<bar>e - s\<bar> div 1000000)"
      by (intro duration_ms_in_range) simp_all
  qed
  from m1 m2 m3 n1 n2 n3 n4 n5 i1 i2 i3 d1 d2 show ?thesis by (intro conjI)
qed
theorem output_format_and_flush_witness:
  "NonAtomicBaseline \<in> set benchmarks \<and>
   GetName (NonAtomicBenchmark 0) = Some ''Non-atomic Benchmark'' \<and>
   count_list (report_line (name_of NonAtomicBaseline) 1 5) (CHR 0x0A) = 1 \<and>
   (\<exists>b' w' pre mid post.
      RunWithThreads (\<lambda>k. 0) (\<lambda>k. int k * 1234567890) 3 (NonAtomicBenchmark 0) world0
        = Some (b', w') \<and>
      stdout_of (events w') = ''Non-atomic Benchmark: numThreads = 3 ... 1234 ms'' @ [CHR 0x0A] \<and>
      events w' = pre @ [Flush] @ mid @ post \<and>
      stdout_of pre = ''Non-atomic Benchmark: numThreads = 3 ... '' \<and>
      started pre = [] \<and> stdout_of mid = [] \<and> started mid = [0, 1, 2] \<and>
      joins mid = [0, 1, 2] \<and> stdout_of post = ''1234 ms'' @ [CHR 0x0A]) \<and>
   show_nat 10 = ''10'' \<and> read_nat ''10'' = 10 \<and>
   show_int (- 446744073709) = ''-446744073709'' \<and>
   read_int ''-446744073709'' = - 446744073709 \<and>
   duration_ms 0 1234567890 = 1234 \<and>
   duration_ms 5000000 1 = - 4 \<and>
   duration_ms (- 9000000000000000000) 9000000000000000000 = - 446744073709"
proof -
  note t = output_format_and_flush[where sched = "\<lambda>k. 0" and clock = "\<lambda>k. int k * 1234567890"
      and b = "NonAtomicBenchmark 0" and nm = "''Non-atomic Benchmark''" and n = 3
      and w = world0 and k = 1 and ms = 5 and x = 1234 and s = 0 and e = 1234567890]
  note t10 = output_format_and_flush[where n = 10 and x = "- 446744073709"
      and s = 5000000 and e = 1]
  note tw = output_format_and_flush[where s = "- 9000000000000000000"
      and e = 9000000000000000000]
  note numbers = t[THEN conjunct2, THEN conjunct2, THEN conjunct2, THEN conjunct2,
      THEN conjunct2, THEN conjunct2, THEN conjunct2, THEN conjunct2]
  note numbers10 = t10[THEN conjunct2, THEN conjunct2, THEN conjunct2, THEN conjunct2,
      THEN conjunct2, THEN conjunct2, THEN conjunct2, THEN conjunct2]
  note numbersw = tw[THEN conjunct2, THEN conjunct2, THEN conjunct2, THEN conjunct2,
      THEN conjunct2, THEN conjunct2, THEN conjunct2, THEN conjunct2]
  have m: "NonAtomicBaseline \<in> set benchmarks" by (simp add: benchmarks_eq)
  have g: "GetName (NonAtomicBenchmark 0) = Some ''Non-atomic Benchmark''" by simp
  have u: "[0..<3] = [0, 1, 2]" by (simp add: upt_rec)
  have s3: "show_nat 3 = ''3''" by (simp add: show_nat.simps digit_char_def)
  have s10: "show_nat 10 = ''10''" by (simp add: show_nat.simps digit_char_def)
  have si: "show_int 1234 = ''1234''" by (simp add: show_int_def show_nat.simps digit_char_def)
  have sn: "show_int (- 446744073709) = ''-446744073709''"
    by (simp add: show_int_def show_nat.simps digit_char_def)
  have "read_nat (show_nat 10) = 10"
    by (rule t10[THEN conjunct2, THEN conjunct2, THEN conjunct2, THEN conjunct1])
  then have r10: "read_nat ''10'' = 10" unfolding s10 .
  have "read_int (show_int (- 446744073709)) = - 446744073709"
    by (rule numbers10[THEN conjunct1])
  then have rn: "read_int ''-446744073709'' = - 446744073709" unfolding sn .
  have "- (2 ^ 63) \<le> (1234567890 :: int) - 0 \<and> (1234567890 :: int) - 0 < 2 ^ 63 \<longrightarrow>
      duration_ms 0 1234567890 = sgn (1234567890 - 0) * (\<bar>1234567890 - 0\<bar> div 1000000)"
    by (rule numbers[THEN conjunct2, THEN conjunct2, THEN conjunct2, THEN conjunct2])
  then have d: "duration_ms 0 1234567890 = 1234" by simp
  have "- (2 ^ 63) \<le> (1 :: int) - 5000000 \<and> (1 :: int) - 5000000 < 2 ^ 63 \<longrightarrow>
      duration_ms 5000000 1 = sgn (1 - 5000000) * (\<bar>1 - 5000000\<bar> div 1000000)"
    by (rule numbers10[THEN conjunct2, THEN conjunct2, THEN conjunct2, THEN conjunct2])
  then have dn: "duration_ms 5000000 1 = - 4" by simp
  have "duration_ms (- 9000000000000000000) 9000000000000000000 =
     (let d = sint (word_of_int (9000000000000000000 - (- 9000000000000000000)) :: 64 word)
      in sgn d * (\<bar>d\<bar> div 1000000))"
    by (rule numbersw[THEN conjunct2, THEN conjunct2, THEN conjunct2, THEN conjunct1])
  then have dw: "duration_ms (- 9000000000000000000) 9000000000000000000 = - 446744073709"
    by simp
  from t[THEN conjunct2, THEN conjunct1, rule_format, OF m]
  have c: "count_list (report_line (name_of NonAtomicBaseline) 1 5) (CHR 0x0A) = 1"
    by (rule conjunct1)
  from t[THEN conjunct2, THEN conjunct2, THEN conjunct1, rule_format, OF g]
  obtain b' w' pre mid post where
    r: "RunWithThreads (\<lambda>k. 0) (\<lambda>k. int k * 1234567890) 3 (NonAtomicBenchmark 0) world0
          = Some (b', w')"
    and ev: "events w' = events world0 @ pre @ [Flush] @ mid @ post"
    and p1: "stdout_of pre = ''Non-atomic Benchmark'' @ '': numThreads = '' @ show_nat 3 @ '' ... ''"
    and p2: "started pre = []" and m1: "stdout_of mid = []" and m2: "started mid = [0..<3]"
    and m3: "joins mid = [0..<3]"
    and q: "stdout_of post =
        show_int (duration_ms (int (clock_reads world0) * 1234567890)
                              (int (Suc (clock_reads world0)) * 1234567890))
        @ '' ms'' @ newline"
    by blast
  have ev': "events w' = pre @ [Flush] @ mid @ post" using ev by (simp add: world0_def)
  have p1': "stdout_of pre = ''Non-atomic Benchmark: numThreads = 3 ... ''"
    unfolding p1 s3 by simp
  have q': "stdout_of post = ''1234 ms'' @ [CHR 0x0A]"
    unfolding q by (simp add: world0_def d si newline_def)
  have out: "stdout_of (events w') =
      ''Non-atomic Benchmark: numThreads = 3 ... 1234 ms'' @ [CHR 0x0A]"
    unfolding ev' stdout_of_append p1' m1 q' by (simp add: stdout_of_def)
  have run: "\<exists>b' w' pre mid post.
      RunWithThreads (\<lambda>k. 0) (\<lambda>k. int k * 1234567890) 3 (NonAtomicBenchmark 0) world0
        = Some (b', w') \<and>
      stdout_of (events w') = ''Non-atomic Benchmark: numThreads = 3 ... 1234 ms'' @ [CHR 0x0A] \<and>
      events w' = pre @ [Flush] @ mid @ post \<and>
      stdout_of pre = ''Non-atomic Benchmark: numThreads = 3 ... '' \<and>
      started pre = [] \<and> stdout_of mid = [] \<and> started mid = [0, 1, 2] \<and>
      joins mid = [0, 1, 2] \<and> stdout_of post = ''1234 ms'' @ [CHR 0x0A]"
    using r out ev' p1' p2 m1 m2[unfolded u] m3[unfolded u] q'
    by (intro exI[of _ b'] exI[of _ w'] exI[of _ pre] exI[of _ mid] exI[of _ post] conjI)
  from m g c run s10 r10 sn rn d dn dw show ?thesis by (intro conjI)
qed

text \<open>C9. \<open>main\<close> calls \<open>Run(10)\<close> on every object and takes the number from nowhere
  else: whatever the schedule and the clock, it returns having written exactly 140
  lines, and the threads it started are, 14 times over, those of a trial with 1 thread,
  a trial with 2 threads, and so on to a trial with 10 threads.
\<close>
theorem main_runs_ten_trials_each:
  "\<exists>bs w. main sched clock = Some (0, bs, w) \<and>
     count_list (stdout_of (events w)) (CHR 0x0A) = 140 \<and>
     started (events w) = concat (map (\<lambda>i. concat (map (\<lambda>k. [0..<k]) [1..<11])) [0..<14]) \<and>
     length (started (events w)) = 770"
proof -
  from main_result[of sched clock] obtain bs w
    where m: "main sched clock = Some (0, bs, w)" and e: "events w = program_events clock"
    by blast
  have c: "count_list (stdout_of (events w)) (CHR 0x0A) = 140"
    unfolding e by (rule count_newline_program)
  have s: "started (events w) = concat (map (\<lambda>i. concat (map (\<lambda>k. [0..<k]) [1..<11])) [0..<14])"
    unfolding e by (rule started_program_events)
  have l: "length (started (events w)) = 770"
    unfolding s by (simp add: length_concat upt_rec)
  from m c s l show ?thesis by blast
qed
theorem main_runs_ten_trials_each_witness:
  "\<exists>bs w. main (\<lambda>k. 3 * k + 1) (\<lambda>k. 1000000 * int k) = Some (0, bs, w) \<and>
     count_list (stdout_of (events w)) (CHR 0x0A) = 140"
  using main_runs_ten_trials_each[of "\<lambda>k. 3 * k + 1" "\<lambda>k. 1000000 * int k"] by blast

text \<open>C10. \<open>GetMemoryOrderRepr\<close> is called only from \<open>GetName\<close> of an atomic class, with
  the class's template argument. Every object that \<open>main\<close> constructs has one of the
  six arguments of \<open>MEMORY_ORDER_LIST\<close>; on these the \<open>switch\<close> returns six
  different, non-empty strings, and the \<open>default\<close> branch is taken exactly by the
  values outside the six.
\<close>

theorem GetMemoryOrderRepr_covers_program_orders:
  "(\<forall>b \<in> set benchmarks. \<forall>order. order_of b = Some order \<longrightarrow> order \<in> set memory_orders) \<and>
   map GetMemoryOrderRepr memory_orders =
     [Some ''relaxed'', Some ''consume'', Some ''acquire'',
      Some ''release'', Some ''acq_rel'', Some ''seq_cst''] \<and>
   distinct (map GetMemoryOrderRepr memory_orders) \<and>
   (\<forall>order \<in> set memory_orders. \<exists>s. GetMemoryOrderRepr order = Some s \<and> s \<noteq> []) \<and>
   (GetMemoryOrderRepr order = None \<longleftrightarrow> order \<notin> set memory_orders)"
proof (intro conjI)
  show "\<forall>b \<in> set benchmarks. \<forall>order. order_of b = Some order \<longrightarrow> order \<in> set memory_orders"
    by (simp add: benchmarks_eq memory_orders_eq)
  show "map GetMemoryOrderRepr memory_orders =
     [Some ''relaxed'', Some ''consume'', Some ''acquire'',
      Some ''release'', Some ''acq_rel'', Some ''seq_cst'']"
    by (simp add: memory_orders_eq GetMemoryOrderRepr_simps)
  then show "distinct (map GetMemoryOrderRepr memory_orders)"
    by simp
  show "\<forall>order \<in> set memory_orders. \<exists>s. GetMemoryOrderRepr order = Some s \<and> s \<noteq> []"
    by (simp add: memory_orders_eq GetMemoryOrderRepr_simps)
  show "GetMemoryOrderRepr order = None \<longleftrightarrow> order \<notin> set memory_orders"
    by (rule GetMemoryOrderRepr_None)
qed

theorem GetMemoryOrderRepr_covers_program_orders_witness:
  "AtomicBenchmark memory_order_acq_rel 0 \<in> set benchmarks \<and>
   memory_order_acq_rel \<in> set memory_orders \<and>
   GetMemoryOrderRepr memory_order_acq_rel = Some ''acq_rel'' \<and>
   GetMemoryOrderRepr 6 = None"
proof -
  have b: "AtomicBenchmark memory_order_acq_rel 0 \<in> set benchmarks"
    by (simp add: benchmarks_eq)
  have "order_of (AtomicBenchmark memory_order_acq_rel 0) = Some memory_order_acq_rel"
    by simp
  with b GetMemoryOrderRepr_covers_program_orders [of 6]
  have m: "memory_order_acq_rel \<in> set memory_orders" by blast
  have "(6 :: memory_order) \<notin> set memory_orders"
    by (simp add: memory_orders_eq memory_order_defs)
  with GetMemoryOrderRepr_covers_program_orders [of 6]
  have n: "GetMemoryOrderRepr 6 = None" by blast
  from b m n show ?thesis by (simp add: GetMemoryOrderRepr_simps)
qed

end
